theory Spec2Isabelle
  imports Complex_Main
begin

section \<open>Exceptions, outcomes and the clock\<close>

text \<open>
  The reliability layer of the repository is four Python modules:
  \<^verbatim>\<open>circuit_breaker.py\<close>, \<^verbatim>\<open>circuit_breaker_redis.py\<close>, \<^verbatim>\<open>retry.py\<close> and
  \<^verbatim>\<open>rate_limiter.py\<close>. Python floats (timestamps, delays, token counts) are read as
  real numbers; rounding and overflow of IEEE doubles are outside this model. Python's
  unbounded integers are \<open>int\<close>.

  Exceptions are values. The classes the four modules raise or catch are listed with their
  method resolution order, so that \<^verbatim>\<open>except C\<close> is the test that \<open>C\<close> occurs in the
  order of the raised object's class.
\<close>

datatype exc_class =
    BaseException | Exception | KeyboardInterrupt
  | ArithmeticError | ZeroDivisionError | OSError | ConnectionError
  | TypeError | ValueError | AttributeError | CircuitBreakerError | RateLimitExceeded
  | ResponseError

fun mro :: "exc_class \<Rightarrow> exc_class list" where
  "mro BaseException = [BaseException]"
| "mro Exception = [Exception, BaseException]"
| "mro KeyboardInterrupt = [KeyboardInterrupt, BaseException]"
| "mro ArithmeticError = [ArithmeticError, Exception, BaseException]"
| "mro ZeroDivisionError = [ZeroDivisionError, ArithmeticError, Exception, BaseException]"
| "mro OSError = [OSError, Exception, BaseException]"
| "mro ConnectionError = [ConnectionError, OSError, Exception, BaseException]"
| "mro TypeError = [TypeError, Exception, BaseException]"
| "mro ValueError = [ValueError, Exception, BaseException]"
| "mro CircuitBreakerError = [CircuitBreakerError, Exception, BaseException]"
| "mro RateLimitExceeded = [RateLimitExceeded, Exception, BaseException]"
| "mro AttributeError = [AttributeError, Exception, BaseException]"
| "mro ResponseError = [ResponseError, Exception, BaseException]"

text \<open>
  An exception object is its class and its message. The message of the breaker's
  \<^verbatim>\<open>CircuitBreakerError\<close> is built from the remaining wait; that object is kept as
  \<open>CircuitOpen\<close> with the remaining wait itself instead of its formatted text.
\<close>

datatype exn = Raised exc_class string | CircuitOpen real

fun class_of :: "exn \<Rightarrow> exc_class" where
  "class_of (Raised c m) = c"
| "class_of (CircuitOpen r) = CircuitBreakerError"

definition isinstance :: "exn \<Rightarrow> exc_class \<Rightarrow> bool" where
  "isinstance e c = (c \<in> set (mro (class_of e)))"

definition isinstance_any :: "exn \<Rightarrow> exc_class list \<Rightarrow> bool" where
  "isinstance_any e cs = (\<exists>c \<in> set cs. isinstance e c)"

datatype 'a outcome = Returns 'a | Raises exn

text \<open>
  The world outside the objects: \<^verbatim>\<open>time.time()\<close> reads \<open>now\<close>. A wrapped
  function is any function from the world to an outcome and a new world, so it may take
  time, move the clock in either direction and keep state of its own in an extension of
  the record. \<^verbatim>\<open>time.sleep(d)\<close> raises \<^verbatim>\<open>ValueError\<close> for a negative \<open>d\<close> and
  otherwise advances the clock by \<open>d\<close>.
\<close>

record world =
  now :: real

definition time_sleep :: "real \<Rightarrow> 'z world_scheme \<Rightarrow> exn + 'z world_scheme" where
  "time_sleep d w =
     (if d < 0 then Inl (Raised ValueError ''sleep length must be non-negative'')
      else Inr (w\<lparr>now := now w + d\<rparr>))"

section \<open>The in-memory circuit breaker (circuit_breaker.py)\<close>

datatype CircuitState = CLOSED | OPEN | HALF_OPEN

record CircuitBreaker =
  name :: string
  failure_threshold :: int
  recovery_timeout :: real
  success_threshold :: int
  expected_exception :: exc_class
  failure_count :: int
  success_count :: int
  last_failure_time :: "real option"
  state :: CircuitState

definition CircuitBreaker_init ::
  "string \<Rightarrow> int \<Rightarrow> real \<Rightarrow> int \<Rightarrow> exc_class \<Rightarrow> CircuitBreaker" where
  "CircuitBreaker_init nm ft rt st ee =
     \<lparr> name = nm, failure_threshold = ft, recovery_timeout = rt, success_threshold = st,
       expected_exception = ee, failure_count = 0, success_count = 0,
       last_failure_time = None, state = CLOSED \<rparr>"

text \<open>
  \<^verbatim>\<open>CircuitBreaker.call\<close>, for a single caller (the lock is not modelled). The three
  parts are the source's: the check under the lock (an OPEN breaker either moves to
  HALF_OPEN or raises; with \<^verbatim>\<open>last_failure_time = None\<close> the subtraction raises
  TypeError), the call of \<open>func\<close>, and the bookkeeping of its success or of a failure
  that matches \<^verbatim>\<open>expected_exception\<close>. Any other exception leaves the \<^verbatim>\<open>try\<close>
  statement with no handler run.
\<close>

definition call ::
  "('z world_scheme \<Rightarrow> 'a outcome \<times> 'z world_scheme) \<Rightarrow> CircuitBreaker \<Rightarrow> 'z world_scheme
     \<Rightarrow> 'a outcome \<times> CircuitBreaker \<times> 'z world_scheme" where
  "call func b w =
     (let checked =
        (if state b = OPEN then
           (case last_failure_time b of
              None \<Rightarrow> Inl (Raised TypeError ''unsupported operand type(s) for -'')
            | Some t \<Rightarrow>
                if now w - t \<ge> recovery_timeout b
                then Inr (b\<lparr>state := HALF_OPEN, success_count := 0\<rparr>)
                else Inl (CircuitOpen (recovery_timeout b - (now w - t))))
         else Inr b)
      in case checked of
           Inl e \<Rightarrow> (Raises e, b, w)
         | Inr b1 \<Rightarrow>
             (case func w of
                (Returns result, w1) \<Rightarrow>
                  (Returns result,
                   (if state b1 = HALF_OPEN then
                      (let b2 = b1\<lparr>success_count := success_count b1 + 1\<rparr>
                       in if success_count b2 \<ge> success_threshold b2
                          then b2\<lparr>failure_count := 0, state := CLOSED\<rparr>
                          else b2)
                    else b1\<lparr>failure_count := 0\<rparr>),
                   w1)
              | (Raises e, w1) \<Rightarrow>
                  if isinstance e (expected_exception b1) then
                    (let b2 = b1\<lparr>failure_count := failure_count b1 + 1,
                                 last_failure_time := Some (now w1),
                                 success_count := 0\<rparr>
                     in (Raises e,
                         (if failure_count b2 \<ge> failure_threshold b2
                          then b2\<lparr>state := OPEN\<rparr> else b2),
                         w1))
                  else (Raises e, b1, w1)))"

definition reset :: "CircuitBreaker \<Rightarrow> CircuitBreaker" where
  "reset b = b\<lparr>state := CLOSED, failure_count := 0, success_count := 0\<rparr>"

text \<open>
  A run of calls by one caller. Between two calls the environment may change the world
  (time passes); each step is that change followed by the call of one function.
\<close>

fun calls ::
  "(('z world_scheme \<Rightarrow> 'z world_scheme) \<times> ('z world_scheme \<Rightarrow> 'a outcome \<times> 'z world_scheme)) list
     \<Rightarrow> CircuitBreaker \<Rightarrow> 'z world_scheme \<Rightarrow> 'a outcome list \<times> CircuitBreaker \<times> 'z world_scheme" where
  "calls [] b w = ([], b, w)"
| "calls ((env, func) # rest) b w =
     (case call func b (env w) of
        (r, b1, w1) \<Rightarrow> (case calls rest b1 w1 of (rs, b2, w2) \<Rightarrow> (r # rs, b2, w2)))"

text \<open>
  The breakers a single caller can arrive at: the constructor's result, closed under
  \<open>call\<close> with functions of a given set and under \<open>reset\<close>.
\<close>

inductive reachable ::
  "('z world_scheme \<Rightarrow> 'a outcome \<times> 'z world_scheme) set \<Rightarrow> CircuitBreaker \<Rightarrow> bool"
  for F :: "('z world_scheme \<Rightarrow> 'a outcome \<times> 'z world_scheme) set" where
  reachable_init: "reachable F (CircuitBreaker_init nm ft rt st ee)"
| reachable_call: "reachable F b \<Longrightarrow> func \<in> F \<Longrightarrow> call func b w = (r, b', w') \<Longrightarrow> reachable F b'"
| reachable_reset: "reachable F b \<Longrightarrow> reachable F (reset b)"

text \<open>
  Scenario helpers: a function that always raises a given exception, one that always
  returns a given value, and the environment step that sets the clock. \<open>all_fail\<close> says
  of a run that every function, in the world of its own call, raises an exception
  matching \<^verbatim>\<open>expected_exception\<close>.
\<close>

definition always_raise :: "exn \<Rightarrow> 'z world_scheme \<Rightarrow> 'a outcome \<times> 'z world_scheme" where
  "always_raise e w = (Raises e, w)"

definition always_return :: "'a \<Rightarrow> 'z world_scheme \<Rightarrow> 'a outcome \<times> 'z world_scheme" where
  "always_return v w = (Returns v, w)"

definition at_time :: "real \<Rightarrow> 'z world_scheme \<Rightarrow> 'z world_scheme" where
  "at_time t w = w\<lparr>now := t\<rparr>"

fun all_fail ::
  "(('z world_scheme \<Rightarrow> 'z world_scheme) \<times> ('z world_scheme \<Rightarrow> 'a outcome \<times> 'z world_scheme)) list
     \<Rightarrow> CircuitBreaker \<Rightarrow> 'z world_scheme \<Rightarrow> bool" where
  "all_fail [] b w = True"
| "all_fail ((env, func) # rest) b w =
     (case func (env w) of
        (Returns v, w1) \<Rightarrow> False
      | (Raises e, w1) \<Rightarrow>
          isinstance e (expected_exception b) \<and>
          (case call func b (env w) of (r, b1, w1') \<Rightarrow> all_fail rest b1 w1'))"

text \<open>
  The invariant behind the re-opening of a HALF_OPEN breaker: outside CLOSED the failure
  count has reached the threshold.
\<close>

definition tripped :: "CircuitBreaker \<Rightarrow> bool" where
  "tripped b = (state b \<noteq> CLOSED \<longrightarrow> failure_threshold b \<le> failure_count b)"

section \<open>Retry with exponential backoff (retry.py)\<close>

record RetryConfig =
  max_retries :: int
  initial_delay :: real
  max_delay :: real
  exponential_base :: real
  jitter :: bool
  retryable_exceptions :: "exc_class list"

definition retry_defaults :: RetryConfig where
  "retry_defaults =
     \<lparr> max_retries = 3, initial_delay = 1, max_delay = 60, exponential_base = 2,
       jitter = True, retryable_exceptions = [Exception] \<rparr>"

text \<open>Lines 76-79 and 82-83 of \<^verbatim>\<open>retry.py\<close>: the clamped delay and its jittered value,
  \<open>r\<close> being the value of \<^verbatim>\<open>random.random()\<close>.\<close>

definition backoff_delay :: "RetryConfig \<Rightarrow> nat \<Rightarrow> real" where
  "backoff_delay cfg attempt =
     min (initial_delay cfg * exponential_base cfg ^ attempt) (max_delay cfg)"

definition with_jitter :: "RetryConfig \<Rightarrow> real \<Rightarrow> real \<Rightarrow> real" where
  "with_jitter cfg r delay = (if jitter cfg then delay * (0.5 + r * 0.5) else delay)"

text \<open>
  What one run of the wrapper did: its outcome, the world it left, how many times it
  invoked the wrapped function and the delays it slept, in order.
\<close>

record ('a, 'w) retry_run =
  outcome :: "'a outcome"
  world_after :: 'w
  invocations :: nat
  sleeps :: "real list"

text \<open>
  The \<^verbatim>\<open>for attempt in range(max_retries + 1)\<close> loop of the wrapper, over the attempts
  still to make. \<open>rnd attempt\<close> is the value \<^verbatim>\<open>random.random()\<close> yields in that
  attempt. With no attempt left the code after the loop runs: \<^verbatim>\<open>raise last_exception\<close>,
  a TypeError when \<^verbatim>\<open>last_exception\<close> is still \<^verbatim>\<open>None\<close>. The \<^verbatim>\<open>break\<close> of the last
  attempt leaves the loop for that same statement. An exception that matches no
  \<^verbatim>\<open>retryable_exceptions\<close> class is re-raised at once, and so is the ValueError of
  \<^verbatim>\<open>time.sleep\<close>, which is raised inside the handler.
\<close>

fun retry_loop ::
  "RetryConfig \<Rightarrow> (nat \<Rightarrow> real) \<Rightarrow> ('z world_scheme \<Rightarrow> 'a outcome \<times> 'z world_scheme)
     \<Rightarrow> nat list \<Rightarrow> exn option \<Rightarrow> nat \<Rightarrow> real list \<Rightarrow> 'z world_scheme
     \<Rightarrow> ('a, 'z world_scheme) retry_run" where
  "retry_loop cfg rnd func [] last_exception n sl w =
     (case last_exception of
        None \<Rightarrow> \<lparr> outcome = Raises (Raised TypeError ''exceptions must derive from BaseException''),
                  world_after = w, invocations = n, sleeps = sl \<rparr>
      | Some e \<Rightarrow> \<lparr> outcome = Raises e, world_after = w, invocations = n, sleeps = sl \<rparr>)"
| "retry_loop cfg rnd func (attempt # rest) last_exception n sl w =
     (case func w of
        (Returns v, w1) \<Rightarrow>
          \<lparr> outcome = Returns v, world_after = w1, invocations = n + 1, sleeps = sl \<rparr>
      | (Raises e, w1) \<Rightarrow>
          if isinstance_any e (retryable_exceptions cfg) then
            (if int attempt = max_retries cfg
             then retry_loop cfg rnd func [] (Some e) (n + 1) sl w1
             else
               (let delay = with_jitter cfg (rnd attempt) (backoff_delay cfg attempt)
                in case time_sleep delay w1 of
                     Inl err \<Rightarrow> \<lparr> outcome = Raises err, world_after = w1,
                                   invocations = n + 1, sleeps = sl \<rparr>
                   | Inr w2 \<Rightarrow> retry_loop cfg rnd func rest (Some e) (n + 1) (sl @ [delay]) w2))
          else \<lparr> outcome = Raises e, world_after = w1, invocations = n + 1, sleeps = sl \<rparr>)"

definition wrapper ::
  "RetryConfig \<Rightarrow> (nat \<Rightarrow> real) \<Rightarrow> ('z world_scheme \<Rightarrow> 'a outcome \<times> 'z world_scheme)
     \<Rightarrow> 'z world_scheme \<Rightarrow> ('a, 'z world_scheme) retry_run" where
  "wrapper cfg rnd func w =
     retry_loop cfg rnd func [0 ..< nat (max_retries cfg + 1)] None 0 [] w"

text \<open>
  The retry policy around the breaker: the breaker object lives in the world, and the
  function the wrapper retries is \<^verbatim>\<open>lambda: breaker.call(raw)\<close>. The raw function is
  taken not to call or reset that breaker itself.
\<close>

record breaker_world = world +
  breaker :: CircuitBreaker

definition guarded ::
  "('z breaker_world_scheme \<Rightarrow> 'a outcome \<times> 'z breaker_world_scheme)
     \<Rightarrow> 'z breaker_world_scheme \<Rightarrow> 'a outcome \<times> 'z breaker_world_scheme" where
  "guarded raw w = (case call raw (breaker w) w of (r, b1, w1) \<Rightarrow> (r, w1\<lparr>breaker := b1\<rparr>))"

definition no_jitter_draw :: "nat \<Rightarrow> real" where
  "no_jitter_draw attempt = 0"

section \<open>The token bucket (rate_limiter.py)\<close>

record TokenBucket =
  rate :: real
  capacity :: real
  tokens :: real
  last_update :: real

text \<open>
  The constructor: \<^verbatim>\<open>capacity or rate\<close> takes \<open>rate\<close> when \<open>capacity\<close> is
  \<^verbatim>\<open>None\<close> or zero (both are falsy), and \<^verbatim>\<open>initial_tokens\<close> is tested against
  \<^verbatim>\<open>None\<close> only.
\<close>

definition TokenBucket_init ::
  "real \<Rightarrow> real option \<Rightarrow> real option \<Rightarrow> 'z world_scheme \<Rightarrow> TokenBucket" where
  "TokenBucket_init r cap initial_tokens w =
     (let c = (case cap of None \<Rightarrow> r | Some c' \<Rightarrow> if c' = 0 then r else c')
      in \<lparr> rate = r, capacity = c,
           tokens = (case initial_tokens of None \<Rightarrow> c | Some t \<Rightarrow> t),
           last_update = now w \<rparr>)"

definition refill :: "TokenBucket \<Rightarrow> 'z world_scheme \<Rightarrow> TokenBucket" where
  "refill tb w =
     (let elapsed = now w - last_update tb;
          new_tokens = elapsed * rate tb
      in tb\<lparr>tokens := min (capacity tb) (tokens tb + new_tokens), last_update := now w\<rparr>)"

text \<open>
  The \<^verbatim>\<open>while True\<close> loop of \<^verbatim>\<open>consume\<close>. It need not end, so a run that never
  returns is the value \<open>None\<close>. The division by \<^verbatim>\<open>self.rate\<close> raises
  ZeroDivisionError for a zero rate, and \<^verbatim>\<open>time.sleep\<close> raises for a negative wait.
\<close>

partial_function (option) consume_loop ::
  "real \<Rightarrow> bool \<Rightarrow> real option \<Rightarrow> real \<Rightarrow> TokenBucket \<Rightarrow> 'z world_scheme
     \<Rightarrow> (bool outcome \<times> TokenBucket \<times> 'z world_scheme) option" where
  "consume_loop n block timeout start_time tb w =
     (let tb1 = refill tb w in
      if tokens tb1 \<ge> n then Some (Returns True, tb1\<lparr>tokens := tokens tb1 - n\<rparr>, w)
      else if \<not> block then Some (Returns False, tb1, w)
      else if (case timeout of None \<Rightarrow> False | Some t \<Rightarrow> now w - start_time \<ge> t)
      then Some (Returns False, tb1, w)
      else if rate tb1 = 0
      then Some (Raises (Raised ZeroDivisionError ''float division by zero''), tb1, w)
      else
        (case time_sleep (min ((n - tokens tb1) / rate tb1) 0.1) w of
           Inl err \<Rightarrow> Some (Raises err, tb1, w)
         | Inr w1 \<Rightarrow> consume_loop n block timeout start_time tb1 w1))"

definition consume ::
  "real \<Rightarrow> bool \<Rightarrow> real option \<Rightarrow> TokenBucket \<Rightarrow> 'z world_scheme
     \<Rightarrow> (bool outcome \<times> TokenBucket \<times> 'z world_scheme) option" where
  "consume n block timeout tb w = consume_loop n block timeout (now w) tb w"

definition get_available_tokens :: "TokenBucket \<Rightarrow> 'z world_scheme \<Rightarrow> real \<times> TokenBucket" where
  "get_available_tokens tb w = (let tb1 = refill tb w in (tokens tb1, tb1))"

section \<open>The Redis-backed circuit breaker (circuit_breaker_redis.py)\<close>

text \<open>
  The Redis server as the breaker uses it: keys mapped to values. A value is kept as what
  was stored (a text, an integer or a float) in place of its bytes; \<open>RStr\<close> stands for a
  text that is no numeral. A client created with \<^verbatim>\<open>decode_responses=True\<close> returns
  \<^verbatim>\<open>str\<close> objects from \<^verbatim>\<open>GET\<close>, the default client returns \<^verbatim>\<open>bytes\<close>. \<^verbatim>\<open>INCR\<close>
  creates a missing key with 1 and refuses a value that is no integer.
\<close>

datatype redis_value = RStr string | RInt int | RFloat real

record redis_client =
  decode_responses :: bool
  data :: "string \<Rightarrow> redis_value option"

datatype reply = Bytes redis_value | Text redis_value

definition redis_exists :: "redis_client \<Rightarrow> string \<Rightarrow> bool" where
  "redis_exists c k = (data c k \<noteq> None)"

definition redis_get :: "redis_client \<Rightarrow> string \<Rightarrow> reply option" where
  "redis_get c k =
     (case data c k of
        None \<Rightarrow> None
      | Some v \<Rightarrow> Some (if decode_responses c then Text v else Bytes v))"

definition redis_set :: "redis_client \<Rightarrow> string \<Rightarrow> redis_value \<Rightarrow> redis_client" where
  "redis_set c k v = c\<lparr>data := (data c)(k \<mapsto> v)\<rparr>"

definition redis_incr :: "redis_client \<Rightarrow> string \<Rightarrow> exn + int \<times> redis_client" where
  "redis_incr c k =
     (case data c k of
        None \<Rightarrow> Inr (1, c\<lparr>data := (data c)(k \<mapsto> RInt 1)\<rparr>)
      | Some (RInt n) \<Rightarrow> Inr (n + 1, c\<lparr>data := (data c)(k \<mapsto> RInt (n + 1))\<rparr>)
      | Some v \<Rightarrow> Inl (Raised ResponseError ''value is not an integer or out of range''))"

text \<open>What Python does with a reply: \<^verbatim>\<open>.decode()\<close> exists on \<^verbatim>\<open>bytes\<close> only; a reply is
  falsy when it is empty; \<^verbatim>\<open>float(...)\<close> accepts the text of a number; and
  \<^verbatim>\<open>CircuitState(...)\<close> looks a state up by its value.\<close>

fun decode :: "reply \<Rightarrow> exn + redis_value" where
  "decode (Bytes v) = Inr v"
| "decode (Text v) = Inl (Raised AttributeError ''str object has no attribute decode'')"

fun payload :: "reply \<Rightarrow> redis_value" where
  "payload (Bytes v) = v"
| "payload (Text v) = v"

definition truthy :: "reply \<Rightarrow> bool" where
  "truthy r = (payload r \<noteq> RStr [])"

fun py_float :: "reply \<Rightarrow> exn + real" where
  "py_float r =
     (case payload r of
        RFloat x \<Rightarrow> Inr x
      | RInt n \<Rightarrow> Inr (real_of_int n)
      | RStr s \<Rightarrow> Inl (Raised ValueError ''could not convert string to float''))"

fun state_value :: "CircuitState \<Rightarrow> string" where
  "state_value CLOSED = ''closed''"
| "state_value OPEN = ''open''"
| "state_value HALF_OPEN = ''half_open''"

definition CircuitState_of :: "redis_value \<Rightarrow> exn + CircuitState" where
  "CircuitState_of v =
     (if v = RStr ''closed'' then Inr CLOSED
      else if v = RStr ''open'' then Inr OPEN
      else if v = RStr ''half_open'' then Inr HALF_OPEN
      else Inl (Raised ValueError ''not a valid CircuitState''))"

text \<open>
  The object: its configuration and its four keys. The fields carry the suffix \<open>_r\<close>
  where the in-memory record has the name already. The client is passed to every
  operation and returned updated.
\<close>

record RedisCircuitBreaker =
  name_r :: string
  failure_threshold_r :: int
  recovery_timeout_r :: real
  success_threshold_r :: int
  expected_exception_r :: exc_class
  key_prefix :: string
  state_key :: string
  failures_key :: string
  last_failure_key :: string
  successes_key :: string

definition RedisCircuitBreaker_init ::
  "string \<Rightarrow> redis_client \<Rightarrow> int \<Rightarrow> real \<Rightarrow> int \<Rightarrow> exc_class \<Rightarrow> string
     \<Rightarrow> RedisCircuitBreaker \<times> redis_client" where
  "RedisCircuitBreaker_init nm c ft rt st ee prefix =
     (let kp = prefix @ '':'' @ nm;
          rb = \<lparr> name_r = nm, failure_threshold_r = ft, recovery_timeout_r = rt,
                 success_threshold_r = st, expected_exception_r = ee, key_prefix = kp,
                 state_key = kp @ '':state'', failures_key = kp @ '':failures'',
                 last_failure_key = kp @ '':last_failure'',
                 successes_key = kp @ '':successes'' \<rparr>
      in if \<not> redis_exists c (state_key rb)
         then (rb, redis_set (redis_set (redis_set c (state_key rb) (RStr (state_value CLOSED)))
                                (failures_key rb) (RInt 0))
                     (successes_key rb) (RInt 0))
         else (rb, c))"

definition get_state :: "RedisCircuitBreaker \<Rightarrow> redis_client \<Rightarrow> exn + CircuitState" where
  "get_state rb c =
     (case redis_get c (state_key rb) of
        None \<Rightarrow> Inr CLOSED
      | Some state_val \<Rightarrow>
          (case decode state_val of
             Inl e \<Rightarrow> Inl e
           | Inr v \<Rightarrow> CircuitState_of v))"

definition set_state :: "RedisCircuitBreaker \<Rightarrow> CircuitState \<Rightarrow> redis_client \<Rightarrow> redis_client" where
  "set_state rb st c = redis_set c (state_key rb) (RStr (state_value st))"

definition incr_failures :: "RedisCircuitBreaker \<Rightarrow> redis_client \<Rightarrow> exn + int \<times> redis_client" where
  "incr_failures rb c = redis_incr c (failures_key rb)"

definition reset_failures :: "RedisCircuitBreaker \<Rightarrow> redis_client \<Rightarrow> redis_client" where
  "reset_failures rb c = redis_set c (failures_key rb) (RInt 0)"

definition incr_successes :: "RedisCircuitBreaker \<Rightarrow> redis_client \<Rightarrow> exn + int \<times> redis_client" where
  "incr_successes rb c = redis_incr c (successes_key rb)"

definition reset_successes :: "RedisCircuitBreaker \<Rightarrow> redis_client \<Rightarrow> redis_client" where
  "reset_successes rb c = redis_set c (successes_key rb) (RInt 0)"

definition get_last_failure_time ::
  "RedisCircuitBreaker \<Rightarrow> redis_client \<Rightarrow> exn + real option" where
  "get_last_failure_time rb c =
     (case redis_get c (last_failure_key rb) of
        None \<Rightarrow> Inr None
      | Some timestamp \<Rightarrow>
          if truthy timestamp
          then (case py_float timestamp of Inl e \<Rightarrow> Inl e | Inr x \<Rightarrow> Inr (Some x))
          else Inr None)"

definition set_last_failure_time ::
  "RedisCircuitBreaker \<Rightarrow> real \<Rightarrow> redis_client \<Rightarrow> redis_client" where
  "set_last_failure_time rb timestamp c = redis_set c (last_failure_key rb) (RFloat timestamp)"

text \<open>
  \<^verbatim>\<open>RedisCircuitBreaker.call\<close> for a single caller; the wrapped function does not touch
  the breaker's keys. The test \<^verbatim>\<open>if last_failure and (...)\<close> is Python's truth test of
  an optional float: \<^verbatim>\<open>None\<close> and \<^verbatim>\<open>0.0\<close> are both false. The bookkeeping of a
  success is inside the \<^verbatim>\<open>try\<close> statement, so an exception it raises reaches the
  handler of \<^verbatim>\<open>expected_exception\<close>.
\<close>

definition RedisCircuitBreaker_call ::
  "('z world_scheme \<Rightarrow> 'a outcome \<times> 'z world_scheme) \<Rightarrow> RedisCircuitBreaker \<Rightarrow> redis_client
     \<Rightarrow> 'z world_scheme \<Rightarrow> 'a outcome \<times> redis_client \<times> 'z world_scheme" where
  "RedisCircuitBreaker_call func rb c w =
     (case get_state rb c of
        Inl e \<Rightarrow> (Raises e, c, w)
      | Inr st \<Rightarrow>
         (let checked =
            (if st = OPEN then
               (case get_last_failure_time rb c of
                  Inl e \<Rightarrow> Inl e
                | Inr last_failure \<Rightarrow>
                    if (case last_failure of
                          None \<Rightarrow> False
                        | Some t \<Rightarrow> t \<noteq> 0 \<and> now w - t \<ge> recovery_timeout_r rb)
                    then Inr (reset_successes rb (set_state rb HALF_OPEN c))
                    else Inl (CircuitOpen
                                (case last_failure of
                                   None \<Rightarrow> 0
                                 | Some t \<Rightarrow>
                                     if t \<noteq> 0 then recovery_timeout_r rb - (now w - t) else 0)))
             else Inr c)
          in case checked of
               Inl e \<Rightarrow> (Raises e, c, w)
             | Inr c1 \<Rightarrow>
                 (let tried =
                    (case func w of
                       (Raises e, w1) \<Rightarrow> (Raises e, c1, w1)
                     | (Returns result, w1) \<Rightarrow>
                         (case get_state rb c1 of
                            Inl e \<Rightarrow> (Raises e, c1, w1)
                          | Inr st2 \<Rightarrow>
                              if st2 = HALF_OPEN then
                                (case incr_successes rb c1 of
                                   Inl e \<Rightarrow> (Raises e, c1, w1)
                                 | Inr (successes, c2) \<Rightarrow>
                                     if successes \<ge> success_threshold_r rb
                                     then (Returns result,
                                           reset_failures rb (set_state rb CLOSED c2), w1)
                                     else (Returns result, c2, w1))
                              else (Returns result, reset_failures rb c1, w1)))
                  in case tried of
                       (Returns result, c2, w1) \<Rightarrow> (Returns result, c2, w1)
                     | (Raises e, c2, w1) \<Rightarrow>
                         if isinstance e (expected_exception_r rb) then
                           (case incr_failures rb c2 of
                              Inl e2 \<Rightarrow> (Raises e2, c2, w1)
                            | Inr (failures, c3) \<Rightarrow>
                                (let c4 = reset_successes rb
                                            (set_last_failure_time rb (now w1) c3)
                                 in (Raises e,
                                     (if failures \<ge> failure_threshold_r rb
                                      then set_state rb OPEN c4 else c4),
                                     w1)))
                         else (Raises e, c2, w1))))"

fun redis_calls ::
  "(('z world_scheme \<Rightarrow> 'z world_scheme) \<times> ('z world_scheme \<Rightarrow> 'a outcome \<times> 'z world_scheme)) list
     \<Rightarrow> RedisCircuitBreaker \<Rightarrow> redis_client \<Rightarrow> 'z world_scheme
     \<Rightarrow> 'a outcome list \<times> redis_client \<times> 'z world_scheme" where
  "redis_calls [] rb c w = ([], c, w)"
| "redis_calls ((env, func) # rest) rb c w =
     (case RedisCircuitBreaker_call func rb c (env w) of
        (r, c1, w1) \<Rightarrow> (case redis_calls rest rb c1 w1 of (rs, c2, w2) \<Rightarrow> (r # rs, c2, w2)))"

text \<open>
  The in-memory breaker and the Redis one hold the same circuit: same configuration,
  four different keys, and every field stored under its key (a missing
  \<^verbatim>\<open>last_failure\<close> key for \<^verbatim>\<open>None\<close>).
\<close>

definition mirrors :: "CircuitBreaker \<Rightarrow> RedisCircuitBreaker \<Rightarrow> redis_client \<Rightarrow> bool" where
  "mirrors b rb c =
     (failure_threshold_r rb = failure_threshold b \<and> recovery_timeout_r rb = recovery_timeout b
      \<and> success_threshold_r rb = success_threshold b
      \<and> expected_exception_r rb = expected_exception b
      \<and> distinct [state_key rb, failures_key rb, last_failure_key rb, successes_key rb]
      \<and> data c (state_key rb) = Some (RStr (state_value (state b)))
      \<and> data c (failures_key rb) = Some (RInt (failure_count b))
      \<and> data c (successes_key rb) = Some (RInt (success_count b))
      \<and> data c (last_failure_key rb) = map_option RFloat (last_failure_time b))"

definition empty_client :: "bool \<Rightarrow> redis_client" where
  "empty_client flag = \<lparr>decode_responses = flag, data = (\<lambda>k. None)\<rparr>"

definition epoch_steps ::
  "((world \<Rightarrow> world) \<times> (world \<Rightarrow> nat outcome \<times> world)) list" where
  "epoch_steps = [(at_time 0, always_raise (Raised ConnectionError ''down'')),
                  (at_time 100, always_return 7)]"

text \<open>
  The relation carried through a run of both breakers: the Redis keys mirror the fields,
  the client returns bytes, an OPEN breaker has a failure time, and no failure was
  recorded at clock reading 0. \<open>nonzero_failure_times\<close> asks of a run that no function
  fails at clock reading 0.
\<close>

definition simulates :: "CircuitBreaker \<Rightarrow> RedisCircuitBreaker \<Rightarrow> redis_client \<Rightarrow> bool" where
  "simulates b rb c =
     (mirrors b rb c \<and> \<not> decode_responses c
      \<and> (state b = OPEN \<longrightarrow> last_failure_time b \<noteq> None)
      \<and> last_failure_time b \<noteq> Some 0)"

definition nonzero_failure_times ::
  "(('z world_scheme \<Rightarrow> 'z world_scheme) \<times> ('z world_scheme \<Rightarrow> 'a outcome \<times> 'z world_scheme)) list
     \<Rightarrow> bool" where
  "nonzero_failure_times steps =
     (\<forall>(env, func) \<in> set steps. \<forall>w e w1. func w = (Raises e, w1) \<longrightarrow> now w1 \<noteq> 0)"

section \<open>Breakers of the scenarios\<close>

text \<open>
  Two breakers with threshold 1, recovery timeout 60 and success threshold 2: one opened
  by a failure at time 0, and the same one after a successful trial call at time 100.
\<close>

definition opened_breaker :: CircuitBreaker where
  "opened_breaker =
     \<lparr> name = ''api'', failure_threshold = 1, recovery_timeout = 60, success_threshold = 2,
       expected_exception = Exception, failure_count = 1, success_count = 0,
       last_failure_time = Some 0, state = OPEN \<rparr>"

definition trial_breaker :: CircuitBreaker where
  "trial_breaker =
     \<lparr> name = ''api'', failure_threshold = 1, recovery_timeout = 60, success_threshold = 2,
       expected_exception = Exception, failure_count = 1, success_count = 1,
       last_failure_time = Some 0, state = HALF_OPEN \<rparr>"

section \<open>Retry scenarios\<close>

text \<open>The delay the wrapper sleeps after a failed attempt: the clamped backoff, jittered
  with the draw of that attempt.\<close>

definition slept_delay :: "RetryConfig \<Rightarrow> (nat \<Rightarrow> real) \<Rightarrow> nat \<Rightarrow> real" where
  "slept_delay cfg rnd attempt = with_jitter cfg (rnd attempt) (backoff_delay cfg attempt)"

text \<open>
  Configurations and a world of the scenarios: the defaults with one retry and a negative
  initial delay; the defaults with only connection errors retryable; and a world at time
  10 holding the breaker that opened at time 0.
\<close>

definition negative_delay_config :: RetryConfig where
  "negative_delay_config = retry_defaults\<lparr>max_retries := 1, initial_delay := - 1\<rparr>"

definition transient_only_config :: RetryConfig where
  "transient_only_config = retry_defaults\<lparr>retryable_exceptions := [ConnectionError, OSError]\<rparr>"

definition open_world :: breaker_world where
  "open_world = \<lparr>now = 10, breaker = opened_breaker\<rparr>"

section \<open>Runs of bucket operations\<close>

text \<open>
  A caller's operations on a bucket, run in order; before each one the environment may
  change the world. A run in which a blocking \<^verbatim>\<open>consume\<close> never returns is \<open>None\<close>.
  \<open>bucket_ok\<close> is the invariant of the bounds claim, \<open>steps_ok\<close> what it needs of a
  run: the clock never goes back and no negative amount is consumed.
\<close>

datatype bucket_op = Consume real bool "real option" | Get_available_tokens

fun bucket_step ::
  "bucket_op \<Rightarrow> TokenBucket \<Rightarrow> 'z world_scheme \<Rightarrow> (TokenBucket \<times> 'z world_scheme) option" where
  "bucket_step (Consume n block timeout) tb w =
     (case consume n block timeout tb w of
        None \<Rightarrow> None
      | Some (r, tb1, w1) \<Rightarrow> Some (tb1, w1))"
| "bucket_step Get_available_tokens tb w = Some (snd (get_available_tokens tb w), w)"

fun bucket_run ::
  "(('z world_scheme \<Rightarrow> 'z world_scheme) \<times> bucket_op) list \<Rightarrow> TokenBucket \<Rightarrow> 'z world_scheme
     \<Rightarrow> (TokenBucket \<times> 'z world_scheme) option" where
  "bucket_run [] tb w = Some (tb, w)"
| "bucket_run ((env, op) # rest) tb w =
     (case bucket_step op tb (env w) of
        None \<Rightarrow> None
      | Some (tb1, w1) \<Rightarrow> bucket_run rest tb1 w1)"

definition bucket_ok :: "TokenBucket \<Rightarrow> 'z world_scheme \<Rightarrow> bool" where
  "bucket_ok tb w = (0 < rate tb \<and> 0 \<le> tokens tb \<and> tokens tb \<le> capacity tb \<and> last_update tb \<le> now w)"

fun op_ok :: "bucket_op \<Rightarrow> bool" where
  "op_ok (Consume n block timeout) = (0 \<le> n)"
| "op_ok Get_available_tokens = True"

definition steps_ok :: "(('z world_scheme \<Rightarrow> 'z world_scheme) \<times> bucket_op) list \<Rightarrow> bool" where
  "steps_ok steps = (\<forall>(env, op) \<in> set steps. (\<forall>w. now w \<le> now (env w)) \<and> op_ok op)"

definition advance :: "real \<Rightarrow> 'z world_scheme \<Rightarrow> 'z world_scheme" where
  "advance d w = w\<lparr>now := now w + d\<rparr>"

definition metered_steps :: "((world \<Rightarrow> world) \<times> bucket_op) list" where
  "metered_steps = [(advance 1, Consume 3 False None), (advance 1, Get_available_tokens)]"

section \<open>Properties of the in-memory circuit breaker\<close>

lemma call_tripped: "tripped b \<Longrightarrow> call func b w = (r, b', w') \<Longrightarrow> tripped b'"
  by (cases "state b")
     (auto simp: call_def tripped_def Let_def
           split: if_splits option.splits sum.splits outcome.splits prod.splits)

lemma reachable_tripped: "reachable F b \<Longrightarrow> tripped b"
proof (induction rule: reachable.induct)
  case (reachable_init nm ft rt st ee)
  then show ?case by (simp add: tripped_def CircuitBreaker_init_def)
next
  case (reachable_call b func w r b' w')
  then show ?case using call_tripped by blast
next
  case (reachable_reset b)
  then show ?case by (simp add: tripped_def reset_def)
qed

lemma calls_all_fail:
  assumes "state b = CLOSED"
    and "failure_count b + int (length steps) = failure_threshold b"
    and "steps \<noteq> []"
    and "all_fail steps b w"
    and "calls steps b w = (rs, b', w')"
  shows "state b' = OPEN \<and> last_failure_time b' = Some (now w')
     \<and> failure_count b' = failure_threshold b \<and> recovery_timeout b' = recovery_timeout b"
  using assms
proof (induction steps arbitrary: b w rs)
  case Nil
  then show ?case by simp
next
  case (Cons step rest)
  obtain env func where step: "step = (env, func)" by (cases step)
  from Cons.prems(4) step obtain e w1 where f: "func (env w) = (Raises e, w1)"
    and inst: "isinstance e (expected_exception b)"
    by (auto split: prod.splits outcome.splits)
  obtain r b1 w1' where c: "call func b (env w) = (r, b1, w1')" by (cases "call func b (env w)")
  show ?case
  proof (cases "rest = []")
    case True
    with Cons.prems step c f inst show ?thesis
      by (auto simp: call_def Let_def)
  next
    case False
    from Cons.prems(1,2) False c f inst have b1: "state b1 = CLOSED"
      "failure_count b1 + int (length rest) = failure_threshold b1"
      "failure_threshold b1 = failure_threshold b"
      "recovery_timeout b1 = recovery_timeout b"
      by (cases rest; auto simp: call_def Let_def)+
    obtain rs2 where c2: "calls rest b1 w1' = (rs2, b', w')"
      using Cons.prems(5) step c by (auto split: prod.splits)
    have "all_fail rest b1 w1'"
      using Cons.prems(4) step c f by simp
    from Cons.IH[OF b1(1) b1(2) False this c2] b1 show ?thesis by simp
  qed
qed

text \<open>
  Claim C1. A breaker with failure threshold \<open>k \<ge> 1\<close> that is CLOSED with failure count
  0 is OPEN after exactly \<open>k\<close> consecutive calls whose function raises an exception
  matching \<^verbatim>\<open>expected_exception\<close>; the next call, made at any clock reading less than
  \<^verbatim>\<open>recovery_timeout\<close> after the last failure, raises CircuitBreakerError whatever the
  function \<open>g\<close> is, and leaves the breaker and the world as they were: \<open>g\<close> is not
  invoked.
\<close>

theorem threshold_trip:
  assumes "1 \<le> failure_threshold b" and "state b = CLOSED" and "failure_count b = 0"
    and "int (length steps) = failure_threshold b"
    and "all_fail steps b w"
    and "calls steps b w = (rs, b', w')"
    and "now w2 - now w' < recovery_timeout b"
  shows "state b' = OPEN \<and>
         call g b' w2 = (Raises (CircuitOpen (recovery_timeout b - (now w2 - now w'))), b', w2)"
proof -
  from assms(1,4) have ne: "steps \<noteq> []" by auto
  from assms(3,4) have len: "failure_count b + int (length steps) = failure_threshold b" by simp
  from calls_all_fail[OF assms(2) len ne assms(5,6)] assms(7)
  show ?thesis by (simp add: call_def)
qed

theorem threshold_trip_witness:
  "state (fst (snd (calls [(at_time 1, always_raise (Raised ConnectionError ''down'')),
                           (at_time 2, always_raise (Raised ConnectionError ''down''))]
                     (CircuitBreaker_init ''api'' 2 60 3 Exception) \<lparr>now = 0\<rparr>))) = OPEN
   \<and> fst (call (always_return (0::nat))
            (fst (snd (calls [(at_time 1, always_raise (Raised ConnectionError ''down'')),
                           (at_time 2, always_raise (Raised ConnectionError ''down''))]
                     (CircuitBreaker_init ''api'' 2 60 3 Exception) \<lparr>now = 0\<rparr>)))
            \<lparr>now = 30\<rparr>) = Raises (CircuitOpen 32)"
  using threshold_trip [of "CircuitBreaker_init ''api'' 2 60 3 Exception"
      "[(at_time 1, always_raise (Raised ConnectionError ''down'')),
        (at_time 2, always_raise (Raised ConnectionError ''down''))]"
      "\<lparr>now = 0\<rparr>" _ _ _ "\<lparr>now = 30\<rparr>" "always_return (0::nat)"]
  by (simp add: CircuitBreaker_init_def always_raise_def always_return_def at_time_def
      call_def isinstance_def)

lemma opened_breaker_reachable:
  "reachable (UNIV :: (world \<Rightarrow> nat outcome \<times> world) set) opened_breaker"
proof -
  have "call (always_raise (Raised ConnectionError ''down''))
          (CircuitBreaker_init ''api'' 1 60 2 Exception) \<lparr>now = 0\<rparr>
        = (Raises (Raised ConnectionError ''down'') :: nat outcome, opened_breaker, \<lparr>now = 0\<rparr>)"
    by (simp add: call_def CircuitBreaker_init_def always_raise_def isinstance_def
        opened_breaker_def)
  from reachable_call[OF reachable_init _ this] show ?thesis by simp
qed

lemma trial_breaker_reachable:
  "reachable (UNIV :: (world \<Rightarrow> nat outcome \<times> world) set) trial_breaker"
proof -
  have "call (always_return (7::nat)) opened_breaker \<lparr>now = 100\<rparr>
        = (Returns 7, trial_breaker, \<lparr>now = 100\<rparr>)"
    by (simp add: call_def always_return_def opened_breaker_def trial_breaker_def)
  from reachable_call[OF opened_breaker_reachable _ this] show ?thesis by simp
qed

text \<open>
  Claim C2. In every HALF_OPEN breaker a single caller can reach, whatever number of
  trial successes it has recorded, one call whose function raises an exception matching
  \<^verbatim>\<open>expected_exception\<close> moves the breaker to OPEN, sets \<^verbatim>\<open>success_count\<close> to 0
  and sets \<^verbatim>\<open>last_failure_time\<close> to the clock reading after the function. The guard
  \<^verbatim>\<open>failure_count >= failure_threshold\<close> holds there by the invariant \<open>tripped\<close>.
\<close>

theorem half_open_failure_reopens:
  assumes "reachable F b" and "state b = HALF_OPEN"
    and "func w = (Raises e, w1)" and "isinstance e (expected_exception b)"
  shows "\<exists>b'. call func b w = (Raises e, b', w1) \<and> state b' = OPEN \<and> success_count b' = 0
           \<and> last_failure_time b' = Some (now w1)"
  using reachable_tripped[OF assms(1)] assms(2-4)
  by (simp add: call_def tripped_def Let_def)

theorem half_open_failure_reopens_witness:
  "reachable (UNIV :: (world \<Rightarrow> nat outcome \<times> world) set) trial_breaker
   \<and> state trial_breaker = HALF_OPEN
   \<and> (\<exists>b'. call (always_raise (Raised ConnectionError ''down'') :: world \<Rightarrow> nat outcome \<times> world)
              trial_breaker \<lparr>now = 200\<rparr>
            = (Raises (Raised ConnectionError ''down''), b', \<lparr>now = 200\<rparr>)
          \<and> state b' = OPEN \<and> success_count b' = 0 \<and> last_failure_time b' = Some 200)"
proof -
  have s: "state trial_breaker = HALF_OPEN" by (simp add: trial_breaker_def)
  have f: "(always_raise (Raised ConnectionError ''down'') :: world \<Rightarrow> nat outcome \<times> world)
             \<lparr>now = 200\<rparr>
           = (Raises (Raised ConnectionError ''down''), \<lparr>now = 200\<rparr>)"
    by (simp add: always_raise_def)
  have i: "isinstance (Raised ConnectionError ''down'') (expected_exception trial_breaker)"
    by (simp add: isinstance_def trial_breaker_def)
  from half_open_failure_reopens
         [where func = "always_raise (Raised ConnectionError ''down'')
                          :: world \<Rightarrow> nat outcome \<times> world"
            and w = "\<lparr>now = 200\<rparr>", OF trial_breaker_reachable s f i]
       trial_breaker_reachable s
  show ?thesis by simp
qed

text \<open>
  Claim C8, as the code has it. A call whose function raises an exception that is not an
  instance of \<^verbatim>\<open>expected_exception\<close> propagates that exception and leaves
  \<^verbatim>\<open>failure_count\<close> and \<^verbatim>\<open>last_failure_time\<close> as they were. \<^verbatim>\<open>state\<close> and
  \<^verbatim>\<open>success_count\<close> are unchanged too when the breaker is CLOSED or HALF_OPEN at the
  call. When it is OPEN with the recovery timeout elapsed, the check before the function
  has already moved it to HALF_OPEN with \<^verbatim>\<open>success_count = 0\<close>, and the exception
  leaves it there. (The hypothesis on an OPEN breaker says that the function is invoked
  at all.)
\<close>

theorem unexpected_exception_frame:
  assumes "func w = (Raises e, w1)" and "\<not> isinstance e (expected_exception b)"
    and "state b = OPEN \<longrightarrow> (\<exists>t. last_failure_time b = Some t \<and> recovery_timeout b \<le> now w - t)"
  shows "call func b w =
           (Raises e, (if state b = OPEN then b\<lparr>state := HALF_OPEN, success_count := 0\<rparr> else b), w1)"
  using assms by (auto simp: call_def)

theorem unexpected_exception_frame_witness:
  "call (always_raise (Raised KeyboardInterrupt '''') :: world \<Rightarrow> nat outcome \<times> world)
      trial_breaker \<lparr>now = 200\<rparr>
   = (Raises (Raised KeyboardInterrupt ''''), trial_breaker, \<lparr>now = 200\<rparr>)"
  using unexpected_exception_frame
      [of "always_raise (Raised KeyboardInterrupt '''') :: world \<Rightarrow> nat outcome \<times> world"
          "\<lparr>now = 200\<rparr>" "Raised KeyboardInterrupt ''''" "\<lparr>now = 200\<rparr>" trial_breaker]
  by (simp add: always_raise_def isinstance_def trial_breaker_def)

text \<open>
  Claim C8 fails as stated on an OPEN breaker whose recovery timeout has elapsed: the
  function raises KeyboardInterrupt, which is no instance of \<^verbatim>\<open>Exception\<close>, the
  exception propagates, and the breaker is HALF_OPEN afterwards.
\<close>

theorem unexpected_exception_changes_state:
  "(always_raise (Raised KeyboardInterrupt '''') :: world \<Rightarrow> nat outcome \<times> world) \<lparr>now = 100\<rparr>
     = (Raises (Raised KeyboardInterrupt ''''), \<lparr>now = 100\<rparr>)
   \<and> \<not> isinstance (Raised KeyboardInterrupt '''') (expected_exception opened_breaker)
   \<and> call (always_raise (Raised KeyboardInterrupt '''') :: world \<Rightarrow> nat outcome \<times> world)
        opened_breaker \<lparr>now = 100\<rparr>
     = (Raises (Raised KeyboardInterrupt ''''), opened_breaker\<lparr>state := HALF_OPEN\<rparr>, \<lparr>now = 100\<rparr>)
   \<and> state (opened_breaker\<lparr>state := HALF_OPEN\<rparr>) \<noteq> state opened_breaker"
  by (simp add: always_raise_def isinstance_def opened_breaker_def call_def)

section \<open>Properties of the retry policy\<close>

lemma retry_loop_exhaust:
  assumes always: "\<forall>w. \<exists>e w1. func w = (Raises e, w1) \<and> isinstance_any e (retryable_exceptions cfg)"
    and mr: "max_retries cfg = int n"
    and nonneg: "\<forall>j < n. 0 \<le> slept_delay cfg rnd j"
  shows "i \<le> n \<Longrightarrow>
     invocations (retry_loop cfg rnd func [i ..< Suc n] lst k sl w) = k + (Suc n - i)
   \<and> sleeps (retry_loop cfg rnd func [i ..< Suc n] lst k sl w) = sl @ map (slept_delay cfg rnd) [i ..< n]
   \<and> (\<exists>w0 e. func w0 = (Raises e, world_after (retry_loop cfg rnd func [i ..< Suc n] lst k sl w))
              \<and> isinstance_any e (retryable_exceptions cfg)
              \<and> outcome (retry_loop cfg rnd func [i ..< Suc n] lst k sl w) = Raises e)"
proof (induction "n - i" arbitrary: i lst k sl w)
  case 0
  then have i: "i = n" by simp
  from always obtain e w1 where f: "func w = (Raises e, w1)"
    and r: "isinstance_any e (retryable_exceptions cfg)" by blast
  have l: "[i ..< Suc n] = [n]" using i by simp
  show ?case unfolding l using f r mr i by auto
next
  case (Suc d)
  then have lt: "i < n" and d: "d = n - Suc i" and le: "Suc i \<le> n" by auto
  from always obtain e w1 where f: "func w = (Raises e, w1)"
    and r: "isinstance_any e (retryable_exceptions cfg)" by blast
  have l: "[i ..< Suc n] = i # [Suc i ..< Suc n]" using lt by (simp add: upt_conv_Cons)
  have l2: "[i ..< n] = i # [Suc i ..< n]" using lt by (simp add: upt_conv_Cons)
  have ne: "int i \<noteq> max_retries cfg" using lt mr by simp
  have nn: "0 \<le> slept_delay cfg rnd i" using nonneg lt by simp
  let ?w2 = "w1\<lparr>now := now w1 + slept_delay cfg rnd i\<rparr>"
  have step: "retry_loop cfg rnd func [i ..< Suc n] lst k sl w
      = retry_loop cfg rnd func [Suc i ..< Suc n] (Some e) (k + 1) (sl @ [slept_delay cfg rnd i]) ?w2"
    unfolding l using f r ne nn by (simp add: time_sleep_def slept_delay_def Let_def)
  from Suc.hyps(1)[OF d le, of "Some e" "k + 1" "sl @ [slept_delay cfg rnd i]" ?w2]
  show ?case unfolding step using lt l2 by auto
qed

text \<open>
  Claim C4, as the code has it. For \<^verbatim>\<open>max_retries = n \<ge> 0\<close>, a wrapped function that
  always raises an exception matching \<^verbatim>\<open>retryable_exceptions\<close>, and a configuration
  none of whose delays before the last attempt is negative, the wrapper invokes the
  function exactly \<open>n + 1\<close> times, sleeps the \<open>n\<close> delays in between and raises the
  exception of the last invocation (the one that left the final world).
\<close>

theorem retry_exhaustion:
  assumes "0 \<le> max_retries cfg"
    and "\<forall>w. \<exists>e w1. func w = (Raises e, w1) \<and> isinstance_any e (retryable_exceptions cfg)"
    and "\<forall>j < nat (max_retries cfg). 0 \<le> slept_delay cfg rnd j"
  shows "invocations (wrapper cfg rnd func w) = nat (max_retries cfg) + 1
       \<and> (\<exists>w0 e. func w0 = (Raises e, world_after (wrapper cfg rnd func w))
                 \<and> outcome (wrapper cfg rnd func w) = Raises e)
       \<and> sleeps (wrapper cfg rnd func w) = map (slept_delay cfg rnd) [0 ..< nat (max_retries cfg)]"
proof -
  have mr: "max_retries cfg = int (nat (max_retries cfg))" using assms(1) by simp
  have n: "nat (max_retries cfg + 1) = Suc (nat (max_retries cfg))" using assms(1) by simp
  from retry_loop_exhaust[OF assms(2) mr assms(3), of 0 None 0 "[]" w]
  show ?thesis unfolding wrapper_def n by auto
qed

lemma nonneg_config_delays:
  assumes "0 \<le> initial_delay cfg" "0 \<le> exponential_base cfg" "0 \<le> max_delay cfg" "0 \<le> rnd j"
  shows "0 \<le> slept_delay cfg rnd j"
  using assms by (simp add: slept_delay_def with_jitter_def backoff_delay_def)

lemma retry_loop_sleeps:
  "\<exists>p. sleeps (retry_loop cfg rnd func [i ..< m] lst k sl w)
        = sl @ map (slept_delay cfg rnd) [i ..< i + p]
      \<and> (\<forall>a. i \<le> a \<and> a < i + p \<longrightarrow> 0 \<le> slept_delay cfg rnd a)"
proof (induction "m - i" arbitrary: i lst k sl w)
  case 0
  then have e: "[i ..< m] = []" by simp
  have "sleeps (retry_loop cfg rnd func [i ..< m] lst k sl w) = sl @ map (slept_delay cfg rnd) [i ..< i + 0]"
    unfolding e by (simp split: option.splits)
  then show ?case by (intro exI[of _ 0]) simp
next
  case (Suc d)
  then have lt: "i < m" and d: "d = m - Suc i" by auto
  have l: "[i ..< m] = i # [Suc i ..< m]" using lt by (simp add: upt_conv_Cons)
  let ?run = "retry_loop cfg rnd func [i ..< m] lst k sl w"
  let ?D = "slept_delay cfg rnd i"
  have alt: "sleeps ?run = sl \<or>
      (0 \<le> ?D \<and> (\<exists>e w1. ?run = retry_loop cfg rnd func [Suc i ..< m] (Some e) (Suc k) (sl @ [?D])
                  (w1\<lparr>now := now w1 + ?D\<rparr>)))"
  proof (cases "func w")
    case (Pair r w1)
    show ?thesis
    proof (cases r)
      case (Returns v)
      with Pair show ?thesis unfolding l by simp
    next
      case (Raises e)
      show ?thesis
      proof (cases "isinstance_any e (retryable_exceptions cfg) \<and> int i \<noteq> max_retries cfg \<and> 0 \<le> ?D")
        case True
        then have "?run = retry_loop cfg rnd func [Suc i ..< m] (Some e) (Suc k) (sl @ [?D])
                  (w1\<lparr>now := now w1 + ?D\<rparr>)"
          unfolding l using Pair Raises by (simp add: time_sleep_def slept_delay_def Let_def)
        with True show ?thesis by blast
      next
        case False
        then have "sleeps ?run = sl"
          unfolding l using Pair Raises by (auto simp: time_sleep_def slept_delay_def Let_def)
        then show ?thesis by simp
      qed
    qed
  qed
  show ?case
  proof (rule disjE[OF alt])
    assume "sleeps ?run = sl"
    then show ?thesis by (intro exI[of _ 0]) simp
  next
    assume "0 \<le> ?D \<and> (\<exists>e w1. ?run = retry_loop cfg rnd func [Suc i ..< m] (Some e) (Suc k) (sl @ [?D])
                  (w1\<lparr>now := now w1 + ?D\<rparr>))"
    then obtain e w1 where nn: "0 \<le> ?D"
      and go: "?run = retry_loop cfg rnd func [Suc i ..< m] (Some e) (Suc k) (sl @ [?D])
                  (w1\<lparr>now := now w1 + ?D\<rparr>)" by blast
    from Suc.hyps(1)[OF d, of "Some e" "Suc k" "sl @ [?D]" "w1\<lparr>now := now w1 + ?D\<rparr>"]
    obtain p where p: "sleeps ?run = (sl @ [?D]) @ map (slept_delay cfg rnd) [Suc i ..< Suc i + p]"
      "\<forall>a. Suc i \<le> a \<and> a < Suc i + p \<longrightarrow> 0 \<le> slept_delay cfg rnd a"
      unfolding go by blast
    have l3: "[i ..< i + Suc p] = i # [Suc i ..< Suc i + p]"
      by (subst upt_rec) simp
    have "sleeps ?run = sl @ map (slept_delay cfg rnd) [i ..< i + Suc p]"
      unfolding l3 using p(1) by simp
    moreover have "\<forall>a. i \<le> a \<and> a < i + Suc p \<longrightarrow> 0 \<le> slept_delay cfg rnd a"
    proof (intro allI impI)
      fix a assume a: "i \<le> a \<and> a < i + Suc p"
      show "0 \<le> slept_delay cfg rnd a"
      proof (cases "a = i")
        case True with nn show ?thesis by simp
      next
        case False with a p(2) show ?thesis by simp
      qed
    qed
    ultimately show ?thesis by blast
  qed
qed

lemma wrapper_sleeps:
  assumes "j < length (sleeps (wrapper cfg rnd func w))"
  shows "sleeps (wrapper cfg rnd func w) ! j = slept_delay cfg rnd j \<and> 0 \<le> slept_delay cfg rnd j"
proof -
  from retry_loop_sleeps[of cfg rnd func 0 "nat (max_retries cfg + 1)" None 0 "[]" w]
  obtain p where p: "sleeps (wrapper cfg rnd func w) = map (slept_delay cfg rnd) [0 ..< p]"
    "\<forall>a < p. 0 \<le> slept_delay cfg rnd a"
    unfolding wrapper_def by auto
  from assms p(1) have "j < p" by simp
  with p show ?thesis by simp
qed

text \<open>
  Claim C5. In every run of the wrapper, the \<open>j\<close>-th delay slept is that of attempt
  \<open>j\<close>. Its value before jitter is
  \<open>min (initial_delay * exponential_base ^ j) max_delay\<close>; without jitter that is the
  delay slept; with jitter, and a draw of \<^verbatim>\<open>random.random()\<close> in \<open>[0, 1)\<close>, the delay
  slept is that value times \<open>0.5 + draw * 0.5\<close>, lies between half of it and it, is
  below it when it is positive, and so never exceeds \<^verbatim>\<open>max_delay\<close>.
\<close>

theorem backoff_delay_bounds:
  assumes "0 \<le> rnd j" and "rnd j < 1"
    and "j < length (sleeps (wrapper cfg rnd func w))"
  shows "backoff_delay cfg j = min (initial_delay cfg * exponential_base cfg ^ j) (max_delay cfg)
       \<and> (\<not> jitter cfg \<longrightarrow> sleeps (wrapper cfg rnd func w) ! j = backoff_delay cfg j)
       \<and> (jitter cfg \<longrightarrow>
            sleeps (wrapper cfg rnd func w) ! j = backoff_delay cfg j * (0.5 + rnd j * 0.5)
          \<and> 0.5 * backoff_delay cfg j \<le> sleeps (wrapper cfg rnd func w) ! j
          \<and> sleeps (wrapper cfg rnd func w) ! j \<le> backoff_delay cfg j
          \<and> (0 < backoff_delay cfg j \<longrightarrow> sleeps (wrapper cfg rnd func w) ! j < backoff_delay cfg j)
          \<and> sleeps (wrapper cfg rnd func w) ! j \<le> max_delay cfg)"
proof -
  note s = wrapper_sleeps[OF assms(3)]
  let ?d = "backoff_delay cfg j"
  have md: "?d \<le> max_delay cfg" by (simp add: backoff_delay_def)
  show ?thesis
  proof (cases "jitter cfg")
    case False
    with s show ?thesis by (simp add: slept_delay_def with_jitter_def backoff_delay_def)
  next
    case True
    with s have eq: "sleeps (wrapper cfg rnd func w) ! j = ?d * (0.5 + rnd j * 0.5)"
      and nn: "0 \<le> ?d * (0.5 + rnd j * 0.5)"
      by (simp_all add: slept_delay_def with_jitter_def)
    have fpos: "0 < 0.5 + rnd j * 0.5" using assms(1) by simp
    have d0: "0 \<le> ?d" using nn fpos by (simp add: zero_le_mult_iff)
    have lo: "0.5 * ?d \<le> ?d * (0.5 + rnd j * 0.5)"
      using d0 assms(1) by (simp add: algebra_simps)
    have hi: "?d * (0.5 + rnd j * 0.5) \<le> ?d"
      using d0 assms(2) mult_left_le[of "0.5 + rnd j * 0.5" ?d] by simp
    have strict: "0 < ?d \<Longrightarrow> ?d * (0.5 + rnd j * 0.5) < ?d"
      using assms(2) by simp
    from True eq lo hi strict md show ?thesis
      by (auto simp: backoff_delay_def)
  qed
qed

text \<open>
  Claim C4 fails as stated when a computed delay is negative: with \<^verbatim>\<open>max_retries = 1\<close>
  and \<^verbatim>\<open>initial_delay = -1\<close> the first failure leads to \<^verbatim>\<open>time.sleep\<close> of a
  negative delay, whose ValueError leaves the wrapper after one invocation.
\<close>

theorem retry_negative_delay:
  "max_retries negative_delay_config = 1
   \<and> invocations (wrapper negative_delay_config no_jitter_draw
        (always_raise (Raised ConnectionError ''down'') :: world \<Rightarrow> nat outcome \<times> world) \<lparr>now = 0\<rparr>) = 1
   \<and> outcome (wrapper negative_delay_config no_jitter_draw
        (always_raise (Raised ConnectionError ''down'') :: world \<Rightarrow> nat outcome \<times> world) \<lparr>now = 0\<rparr>)
      = Raises (Raised ValueError ''sleep length must be non-negative'')"
  by (simp add: negative_delay_config_def retry_defaults_def wrapper_def upt_rec always_raise_def
      isinstance_any_def isinstance_def with_jitter_def backoff_delay_def no_jitter_draw_def
      time_sleep_def)

theorem retry_exhaustion_witness:
  "invocations (wrapper retry_defaults no_jitter_draw
        (always_raise (Raised ConnectionError ''down'') :: world \<Rightarrow> nat outcome \<times> world) \<lparr>now = 0\<rparr>) = 4
   \<and> outcome (wrapper retry_defaults no_jitter_draw
        (always_raise (Raised ConnectionError ''down'') :: world \<Rightarrow> nat outcome \<times> world) \<lparr>now = 0\<rparr>)
      = Raises (Raised ConnectionError ''down'')"
proof -
  have a: "0 \<le> max_retries retry_defaults" by (simp add: retry_defaults_def)
  have b: "\<forall>w. \<exists>e w1. (always_raise (Raised ConnectionError ''down'') :: world \<Rightarrow> nat outcome \<times> world) w = (Raises e, w1)
               \<and> isinstance_any e (retryable_exceptions retry_defaults)"
    by (simp add: always_raise_def isinstance_any_def isinstance_def retry_defaults_def)
  have c: "\<forall>j < nat (max_retries retry_defaults). 0 \<le> slept_delay retry_defaults no_jitter_draw j"
    by (simp add: slept_delay_def with_jitter_def backoff_delay_def retry_defaults_def no_jitter_draw_def)
  let ?run = "wrapper retry_defaults no_jitter_draw
        (always_raise (Raised ConnectionError ''down'') :: world \<Rightarrow> nat outcome \<times> world) \<lparr>now = 0\<rparr>"
  from retry_exhaustion[OF a b c, of "\<lparr>now = 0\<rparr>"]
  obtain w0 e where n: "invocations ?run = nat (max_retries retry_defaults) + 1"
    and f: "(always_raise (Raised ConnectionError ''down'') :: world \<Rightarrow> nat outcome \<times> world) w0
              = (Raises e, world_after ?run)"
    and out: "outcome ?run = Raises e" by blast
  from f have "e = Raised ConnectionError ''down''" by (simp add: always_raise_def)
  with n out show ?thesis by (simp add: retry_defaults_def)
qed

lemma default_run_sleeps:
  "sleeps (wrapper retry_defaults no_jitter_draw
        (always_raise (Raised ConnectionError ''down'') :: world \<Rightarrow> nat outcome \<times> world) \<lparr>now = 0\<rparr>)
   = [1/2, 1, 2]"
  by (simp add: retry_defaults_def wrapper_def upt_rec always_raise_def
      isinstance_any_def isinstance_def with_jitter_def backoff_delay_def no_jitter_draw_def
      time_sleep_def)

theorem backoff_delay_bounds_witness:
  "backoff_delay retry_defaults 2 = 4
   \<and> sleeps (wrapper retry_defaults no_jitter_draw
        (always_raise (Raised ConnectionError ''down'') :: world \<Rightarrow> nat outcome \<times> world) \<lparr>now = 0\<rparr>) ! 2 = 2
   \<and> (2::real) \<le> 4 \<and> (2::real) \<le> max_delay retry_defaults"
proof -
  have a: "0 \<le> no_jitter_draw 2" and b: "no_jitter_draw 2 < 1" by (simp_all add: no_jitter_draw_def)
  have c: "2 < length (sleeps (wrapper retry_defaults no_jitter_draw
        (always_raise (Raised ConnectionError ''down'') :: world \<Rightarrow> nat outcome \<times> world) \<lparr>now = 0\<rparr>))"
    by (simp add: default_run_sleeps)
  from backoff_delay_bounds[OF a b c]
  show ?thesis by (simp add: retry_defaults_def no_jitter_draw_def)
qed

text \<open>
  Claim C3 fails as stated: with the default \<^verbatim>\<open>retryable_exceptions = (Exception,)\<close>
  the CircuitBreakerError of an OPEN breaker is retryable, since CircuitBreakerError
  derives from Exception. The wrapper invokes the breaker four times and sleeps three
  delays.
\<close>

theorem open_breaker_is_retried_by_default:
  "state (breaker open_world) = OPEN
   \<and> now open_world - the (last_failure_time (breaker open_world)) < recovery_timeout (breaker open_world)
   \<and> invocations (wrapper retry_defaults no_jitter_draw (guarded (always_return (0::nat))) open_world) = 4
   \<and> sleeps (wrapper retry_defaults no_jitter_draw (guarded (always_return (0::nat))) open_world) = [1/2, 1, 2]"
  by (simp add: retry_defaults_def wrapper_def upt_rec guarded_def call_def open_world_def
      opened_breaker_def isinstance_any_def isinstance_def with_jitter_def backoff_delay_def
      no_jitter_draw_def time_sleep_def)

text \<open>
  Claim C3, as the code has it. When \<^verbatim>\<open>max_retries \<ge> 0\<close> and no class of
  \<^verbatim>\<open>retryable_exceptions\<close> is CircuitBreakerError or one of its bases, an OPEN breaker
  that is not yet eligible for recovery makes the wrapper raise the breaker's
  CircuitBreakerError after exactly one invocation of the breaker, with no sleep and the
  world as it was.
\<close>

theorem open_breaker_fails_fast:
  assumes "0 \<le> max_retries cfg"
    and "CircuitBreakerError \<notin> set (retryable_exceptions cfg)"
    and "Exception \<notin> set (retryable_exceptions cfg)"
    and "BaseException \<notin> set (retryable_exceptions cfg)"
    and "state (breaker w) = OPEN" and "last_failure_time (breaker w) = Some t"
    and "now w - t < recovery_timeout (breaker w)"
  shows "wrapper cfg rnd (guarded raw) w =
           \<lparr> outcome = Raises (CircuitOpen (recovery_timeout (breaker w) - (now w - t))),
             world_after = w, invocations = 1, sleeps = [] \<rparr>"
proof -
  have l: "[0 ..< nat (max_retries cfg + 1)] = 0 # [1 ..< nat (max_retries cfg + 1)]"
    using assms(1) by (subst upt_rec) simp
  have g: "guarded raw w = (Raises (CircuitOpen (recovery_timeout (breaker w) - (now w - t))), w)"
    using assms(5-7) by (simp add: guarded_def call_def)
  have n: "\<not> isinstance_any (CircuitOpen (recovery_timeout (breaker w) - (now w - t))) (retryable_exceptions cfg)"
    using assms(2-4) by (auto simp: isinstance_any_def isinstance_def)
  show ?thesis unfolding wrapper_def l using g n by simp
qed

theorem open_breaker_fails_fast_witness:
  "wrapper transient_only_config no_jitter_draw (guarded (always_return (0::nat))) open_world =
     \<lparr> outcome = Raises (CircuitOpen 50), world_after = open_world, invocations = 1, sleeps = [] \<rparr>"
  using open_breaker_fails_fast[of transient_only_config open_world 0 no_jitter_draw "always_return (0::nat)"]
  by (simp add: transient_only_config_def retry_defaults_def open_world_def opened_breaker_def)

text \<open>
  Why the amended claim asks for \<^verbatim>\<open>max_retries \<ge> 0\<close>: with \<^verbatim>\<open>max_retries = -1\<close>
  the loop body never runs, the function is not invoked at all, and
  \<^verbatim>\<open>raise last_exception\<close> raises TypeError for \<^verbatim>\<open>None\<close>.
\<close>

lemma negative_max_retries_never_invokes:
  "invocations (wrapper (retry_defaults\<lparr>max_retries := - 1\<rparr>) no_jitter_draw
      (always_return (0::nat) :: world \<Rightarrow> nat outcome \<times> world) \<lparr>now = 0\<rparr>) = 0
   \<and> outcome (wrapper (retry_defaults\<lparr>max_retries := - 1\<rparr>) no_jitter_draw
      (always_return (0::nat) :: world \<Rightarrow> nat outcome \<times> world) \<lparr>now = 0\<rparr>)
     = Raises (Raised TypeError ''exceptions must derive from BaseException'')"
  by (simp add: wrapper_def retry_defaults_def)

section \<open>Properties of the token bucket\<close>

text \<open>
  Claim C10. A bucket constructed with \<^verbatim>\<open>capacity\<close> \<^verbatim>\<open>None\<close> or 0 has capacity
  \<open>rate\<close>; with \<^verbatim>\<open>initial_tokens\<close> omitted it starts with \<open>tokens = capacity\<close>; and
  right after construction (same clock reading) \<^verbatim>\<open>consume(n)\<close> succeeds at once for
  every \<open>n\<close> up to the capacity, in either blocking mode.
\<close>

theorem bucket_starts_full:
  "((cap = None \<or> cap = Some 0) \<longrightarrow> capacity (TokenBucket_init r cap initial w) = r)
   \<and> tokens (TokenBucket_init r cap None w) = capacity (TokenBucket_init r cap None w)
   \<and> (n \<le> capacity (TokenBucket_init r cap None w) \<longrightarrow>
        consume n block timeout (TokenBucket_init r cap None w) w
          = Some (Returns True,
                  (TokenBucket_init r cap None w)\<lparr>tokens := capacity (TokenBucket_init r cap None w) - n\<rparr>,
                  w))"
  by (subst consume_def, subst consume_loop.simps)
     (auto simp: TokenBucket_init_def refill_def Let_def split: option.splits)

theorem bucket_starts_full_witness:
  "capacity (TokenBucket_init 10 (Some 0) None \<lparr>now = 5\<rparr>) = 10
   \<and> tokens (TokenBucket_init 10 None None \<lparr>now = 5\<rparr>) = 10
   \<and> consume 10 False None (TokenBucket_init 10 (Some 0) None \<lparr>now = 5\<rparr>) \<lparr>now = 5\<rparr>
       = Some (Returns True, \<lparr>rate = 10, capacity = 10, tokens = 0, last_update = 5\<rparr>, \<lparr>now = 5\<rparr>)"
  using bucket_starts_full[of "Some 0" 10 None "\<lparr>now = 5\<rparr>" 10 False None]
        bucket_starts_full[of None 10 None "\<lparr>now = 5\<rparr>" 10 False None]
  by (simp add: TokenBucket_init_def)

lemma refill_ok:
  assumes "bucket_ok tb w"
  shows "bucket_ok (refill tb w) w" "capacity (refill tb w) = capacity tb"
    "tokens tb \<le> tokens (refill tb w)"
  using assms by (auto simp: bucket_ok_def refill_def Let_def min_def)

lemma consume_loop_ok:
  assumes "consume_loop n block timeout start tb w = Some y"
  shows "0 \<le> n \<longrightarrow> bucket_ok tb w \<longrightarrow>
       bucket_ok (fst (snd y)) (snd (snd y)) \<and> capacity (fst (snd y)) = capacity tb"
  apply (rule consume_loop.raw_induct
      [where P = "\<lambda>n block timeout start tb w y. 0 \<le> n \<longrightarrow> bucket_ok tb w \<longrightarrow>
         bucket_ok (fst (snd y)) (snd (snd y)) \<and> capacity (fst (snd y)) = capacity tb",
       OF _ assms])
  subgoal premises prems for loop n block timeout start tb w y
  proof (intro impI)
    assume n0: "0 \<le> n" and ok: "bucket_ok tb w"
    note r = refill_ok[OF ok]
    let ?tb1 = "refill tb w"
    let ?wait = "min ((n - tokens ?tb1) / rate ?tb1) (1/10)"
    have pos: "\<not> n \<le> tokens ?tb1 \<Longrightarrow> 0 \<le> ?wait"
      using r(1) by (simp add: bucket_ok_def)
    show "bucket_ok (fst (snd y)) (snd (snd y)) \<and> capacity (fst (snd y)) = capacity tb"
    proof (cases "n \<le> tokens ?tb1")
      case True
      with prems(2) have "y = (Returns True, ?tb1\<lparr>tokens := tokens ?tb1 - n\<rparr>, w)"
        by (simp add: Let_def)
      with r True n0 show ?thesis by (simp add: bucket_ok_def)
    next
      case False
      show ?thesis
      proof (cases "\<not> block \<or> (case timeout of None \<Rightarrow> False | Some t \<Rightarrow> t \<le> now w - start)")
        case True
        with prems(2) False have "y = (Returns False, ?tb1, w)"
          by (auto simp: Let_def split: if_splits)
        with r show ?thesis by simp
      next
        case stay: False
        have rz: "rate ?tb1 \<noteq> 0" using r(1) by (simp add: bucket_ok_def)
        let ?w1 = "w\<lparr>now := now w + ?wait\<rparr>"
        from prems(2) False stay rz pos[OF False]
        have rec: "loop n block timeout start ?tb1 ?w1 = Some y"
          by (simp add: Let_def time_sleep_def split: if_splits)
        have ok1: "bucket_ok ?tb1 ?w1"
          using r(1) pos[OF False] by (auto simp: bucket_ok_def min_def)
        from prems(1)[OF rec] n0 ok1 r(2) show ?thesis by simp
      qed
    qed
  qed
  done

lemma bucket_step_ok:
  assumes "bucket_ok tb w" "op_ok op" "bucket_step op tb w = Some (tb1, w1)"
  shows "bucket_ok tb1 w1 \<and> capacity tb1 = capacity tb"
proof (cases op)
  case (Consume n block timeout)
  with assms(3) obtain r where c: "consume_loop n block timeout (now w) tb w = Some (r, tb1, w1)"
    by (auto simp: consume_def split: option.splits)
  from consume_loop_ok[OF c] assms(1,2) Consume show ?thesis by simp
next
  case Get_available_tokens
  with assms(3) have "tb1 = refill tb w" "w1 = w" by (auto simp: get_available_tokens_def Let_def)
  with refill_ok[OF assms(1)] show ?thesis by simp
qed

lemma bucket_run_ok:
  "bucket_ok tb w \<Longrightarrow> steps_ok steps \<Longrightarrow> bucket_run steps tb w = Some (tb', w')
     \<Longrightarrow> bucket_ok tb' w' \<and> capacity tb' = capacity tb"
proof (induction steps arbitrary: tb w)
  case Nil
  then show ?case by simp
next
  case (Cons step rest)
  obtain env op where step: "step = (env, op)" by (cases step)
  from Cons.prems(2) step have mono: "now w \<le> now (env w)" and opok: "op_ok op"
    and rest: "steps_ok rest" by (auto simp: steps_ok_def)
  from Cons.prems(3) step obtain tb1 w1 where s: "bucket_step op tb (env w) = Some (tb1, w1)"
    and run: "bucket_run rest tb1 w1 = Some (tb', w')"
    by (auto split: option.splits)
  have "bucket_ok tb (env w)" using Cons.prems(1) mono by (simp add: bucket_ok_def)
  from bucket_step_ok[OF this opok s] Cons.IH[OF _ rest run] show ?case by simp
qed

lemma refill_mono:
  fixes w1 w2 :: "'z world_scheme"
  assumes "0 \<le> rate tb" "now w1 \<le> now w2"
  shows "tokens (refill tb w1) \<le> tokens (refill tb w2)"
proof -
  have "(now w1 - last_update tb) * rate tb \<le> (now w2 - last_update tb) * rate tb"
    using assms by (intro mult_right_mono) simp_all
  then show ?thesis by (simp add: refill_def Let_def min_def)
qed

text \<open>
  Claim C6, as the code has it. For a bucket constructed with \<open>rate > 0\<close>, a capacity
  that is \<^verbatim>\<open>None\<close> or not negative and \<^verbatim>\<open>initial_tokens\<close> that is \<^verbatim>\<open>None\<close> or
  within \<open>[0, capacity]\<close>, after every run of \<^verbatim>\<open>consume\<close> (of amounts that are not
  negative) and \<^verbatim>\<open>get_available_tokens\<close> operations in which the clock never goes
  back, \<open>0 \<le> tokens \<le> capacity\<close>, the capacity is the constructed one, the value
  \<^verbatim>\<open>get_available_tokens\<close> returns later lies in the same bounds, a refill does not
  decrease \<open>tokens\<close>, and a refill after a longer time gives at least as many tokens.
\<close>

theorem bucket_bounds:
  assumes "0 < r"
    and "case cap of None \<Rightarrow> True | Some c \<Rightarrow> 0 \<le> c"
    and "case initial of None \<Rightarrow> True
           | Some t \<Rightarrow> 0 \<le> t \<and> t \<le> capacity (TokenBucket_init r cap initial w0)"
    and "steps_ok steps"
    and "bucket_run steps (TokenBucket_init r cap initial w0) w0 = Some (tb, w :: 'z world_scheme)"
  shows "0 \<le> tokens tb \<and> tokens tb \<le> capacity tb
       \<and> capacity tb = capacity (TokenBucket_init r cap initial w0)
       \<and> (\<forall>w1 :: 'z world_scheme. now w \<le> now w1 \<longrightarrow>
             0 \<le> fst (get_available_tokens tb w1)
           \<and> fst (get_available_tokens tb w1) \<le> capacity tb
           \<and> tokens tb \<le> tokens (refill tb w1)
           \<and> (\<forall>w2 :: 'z world_scheme. now w1 \<le> now w2 \<longrightarrow>
                 tokens (refill tb w1) \<le> tokens (refill tb w2)))"
proof -
  have init: "bucket_ok (TokenBucket_init r cap initial w0) w0"
    using assms(1-3)
    by (auto simp: bucket_ok_def TokenBucket_init_def Let_def split: option.splits)
  from bucket_run_ok[OF init assms(4,5)]
  have ok: "bucket_ok tb w" and cap: "capacity tb = capacity (TokenBucket_init r cap initial w0)"
    by simp_all
  have later: "0 \<le> fst (get_available_tokens tb w1)
           \<and> fst (get_available_tokens tb w1) \<le> capacity tb
           \<and> tokens tb \<le> tokens (refill tb w1)
           \<and> (\<forall>w2 :: 'z world_scheme. now w1 \<le> now w2 \<longrightarrow>
                 tokens (refill tb w1) \<le> tokens (refill tb w2))"
    if "now w \<le> now w1" for w1 :: "'z world_scheme"
  proof -
    from ok that have ok1: "bucket_ok tb w1" by (simp add: bucket_ok_def)
    from refill_ok[OF ok1] refill_mono[of tb w1] ok show ?thesis
      by (simp add: get_available_tokens_def Let_def bucket_ok_def)
  qed
  from ok cap later show ?thesis by (simp add: bucket_ok_def)
qed

text \<open>
  Claim C6 fails as stated: the constructor accepts any \<^verbatim>\<open>initial_tokens\<close>. With
  \<^verbatim>\<open>initial_tokens = -3\<close> the first \<^verbatim>\<open>get_available_tokens\<close> returns \<open>-3\<close>.
\<close>

theorem negative_initial_tokens:
  "fst (get_available_tokens (TokenBucket_init 1 (Some 5) (Some (- 3)) \<lparr>now = 0\<rparr>) \<lparr>now = 0\<rparr>) = - 3
   \<and> fst (get_available_tokens (TokenBucket_init 1 (Some 5) (Some (- 3)) \<lparr>now = 0\<rparr>) \<lparr>now = 0\<rparr>) < 0"
  by (simp add: get_available_tokens_def TokenBucket_init_def refill_def)

lemma metered_run:
  "bucket_run metered_steps (TokenBucket_init 1 (Some 5) None \<lparr>now = 0\<rparr>) \<lparr>now = 0\<rparr>
     = Some (\<lparr>rate = 1, capacity = 5, tokens = 3, last_update = 2\<rparr>, \<lparr>now = 2\<rparr>)"
  by (simp add: metered_steps_def consume_def consume_loop.simps get_available_tokens_def
      TokenBucket_init_def refill_def advance_def)

theorem bucket_bounds_witness:
  "bucket_run metered_steps (TokenBucket_init 1 (Some 5) None \<lparr>now = 0\<rparr>) \<lparr>now = 0\<rparr>
     = Some (\<lparr>rate = 1, capacity = 5, tokens = 3, last_update = 2\<rparr>, \<lparr>now = 2\<rparr>)
   \<and> (0::real) \<le> 3 \<and> (3::real) \<le> 5
   \<and> fst (get_available_tokens \<lparr>rate = 1, capacity = 5, tokens = 3, last_update = 2\<rparr> \<lparr>now = 3\<rparr>) \<le> 5"
proof -
  have a: "(0::real) < 1" by simp
  have b: "case Some (5::real) of None \<Rightarrow> True | Some c \<Rightarrow> 0 \<le> c" by simp
  have c: "case (None :: real option) of None \<Rightarrow> True
           | Some t \<Rightarrow> 0 \<le> t \<and> t \<le> capacity (TokenBucket_init 1 (Some 5) None \<lparr>now = 0\<rparr>)" by simp
  have d: "steps_ok metered_steps"
    by (simp add: steps_ok_def metered_steps_def advance_def)
  from bucket_bounds[OF a b c d metered_run] metered_run
  show ?thesis by simp
qed

text \<open>
  Why the amended bounds ask for a clock that never goes back, amounts that are not
  negative and a capacity that is not negative: each of the three breaks a bound.
\<close>

lemma backwards_clock_underflows:
  "fst (get_available_tokens (TokenBucket_init 1 (Some 5) None \<lparr>now = 100\<rparr>) \<lparr>now = 90\<rparr>) = - 5"
  by (simp add: get_available_tokens_def TokenBucket_init_def refill_def)

lemma negative_consume_overfills:
  "consume (- 5) False None (TokenBucket_init 1 (Some 5) None \<lparr>now = 0\<rparr>) \<lparr>now = 0\<rparr>
     = Some (Returns True, \<lparr>rate = 1, capacity = 5, tokens = 10, last_update = 0\<rparr>, \<lparr>now = 0\<rparr>)"
  by (subst consume_def, subst consume_loop.simps) (simp add: TokenBucket_init_def refill_def)

lemma negative_capacity_underflows:
  "fst (get_available_tokens (TokenBucket_init 1 (Some (- 5)) None \<lparr>now = 0\<rparr>) \<lparr>now = 0\<rparr>) = - 5"
  by (simp add: get_available_tokens_def TokenBucket_init_def refill_def)

lemma consume_nonblocking_oversized:
  assumes "capacity tb < n"
  shows "consume n False timeout tb w = Some (Returns False, refill tb w, w)"
proof -
  have "tokens (refill tb w) \<le> capacity tb" by (simp add: refill_def Let_def)
  with assms have "\<not> n \<le> tokens (refill tb w)" by simp
  then show ?thesis by (subst consume_def, subst consume_loop.simps) (simp add: Let_def)
qed

lemma refill_frame:
  "capacity (refill tb w) = capacity tb" "rate (refill tb w) = rate tb"
  "tokens (refill tb w) \<le> capacity tb"
  by (simp_all add: refill_def Let_def)

lemma time_sleep_nonneg: "0 \<le> d \<Longrightarrow> time_sleep d w = Inr (w\<lparr>now := now w + d\<rparr>)"
  by (simp add: time_sleep_def)

lemma consume_loop_never_returns:
  assumes "consume_loop n block timeout start tb w = Some y"
  shows "\<not> (block \<and> timeout = None \<and> capacity tb < n \<and> 0 < rate tb)"
  apply (rule consume_loop.raw_induct
      [where P = "\<lambda>n block timeout start tb w y.
                    \<not> (block \<and> timeout = None \<and> capacity tb < n \<and> 0 < rate tb)",
       OF _ assms])
  subgoal premises prems for loop n block timeout start tb w y
  proof
    assume h: "block \<and> timeout = None \<and> capacity tb < n \<and> 0 < rate tb"
    define tb1 where "tb1 = refill tb w"
    define wt where "wt = min ((n - tokens tb1) / rate tb1) (1/10)"
    have cap: "capacity tb1 = capacity tb" and rt: "rate tb1 = rate tb"
      and le: "tokens tb1 \<le> capacity tb"
      unfolding tb1_def by (rule refill_frame)+
    from le h have lt: "\<not> n \<le> tokens tb1" by simp
    have "0 < (n - tokens tb1) / rate tb1" using h lt rt by simp
    then have pos: "0 \<le> wt" unfolding wt_def by simp
    have rz: "rate tb1 \<noteq> 0" using h rt by simp
    from prems(2) have "(case time_sleep wt w of
                            Inl err \<Rightarrow> Some (Raises err, tb1, w)
                          | Inr w1 \<Rightarrow> loop n block timeout start tb1 w1) = Some y"
      unfolding Let_def tb1_def[symmetric] wt_def[symmetric]
      using h lt rz by simp
    then have rec: "loop n block timeout start tb1 (w\<lparr>now := now w + wt\<rparr>) = Some y"
      by (simp add: time_sleep_nonneg[OF pos])
    from prems(1)[OF rec] h cap rt show False by simp
  qed
  done

lemma consume_loop_timeout:
  fixes w :: "'z world_scheme"
  assumes r: "0 < r" and c: "c < n"
  shows "rate tb = r \<Longrightarrow> capacity tb = c \<Longrightarrow>
         start + t - now w \<le> real k * min ((n - c) / r) (1/10) \<Longrightarrow>
         now w - start < max t 0 + 1/10 \<Longrightarrow>
         \<exists>tb' (w' :: 'z world_scheme).
            consume_loop n True (Some t) start tb w = Some (Returns False, tb', w')
          \<and> t \<le> now w' - start \<and> now w' - start < max t 0 + 1/10"
proof (induction k arbitrary: tb w)
  case 0
  define tb1 where "tb1 = refill tb w"
  have le: "tokens tb1 \<le> capacity tb" unfolding tb1_def by (rule refill_frame)
  with c 0(2) have lt: "\<not> n \<le> tokens tb1" by simp
  from 0(3) have el: "t \<le> now w - start" by simp
  have "consume_loop n True (Some t) start tb w = Some (Returns False, tb1, w)"
    by (subst consume_loop.simps) (simp add: Let_def lt[unfolded tb1_def] el tb1_def)
  with el 0(4) show ?case by blast
next
  case (Suc k)
  define tb1 where "tb1 = refill tb w"
  define d where "d = min ((n - c) / r) (1/10)"
  define wt where "wt = min ((n - tokens tb1) / rate tb1) (1/10)"
  have cap: "capacity tb1 = c" and rt: "rate tb1 = r"
    using Suc.prems(1,2) unfolding tb1_def by (simp_all add: refill_frame)
  have le: "tokens tb1 \<le> c" using Suc.prems(2) refill_frame(3)[of tb w] unfolding tb1_def by simp
  with c have lt: "\<not> n \<le> tokens tb1" by simp
  show ?case
  proof (cases "t \<le> now w - start")
    case True
    have "consume_loop n True (Some t) start tb w = Some (Returns False, tb1, w)"
      by (subst consume_loop.simps) (simp add: Let_def lt[unfolded tb1_def] True tb1_def)
    with True Suc.prems(4) show ?thesis by blast
  next
    case False
    have "(n - c) / r \<le> (n - tokens tb1) / r"
      using le r by (simp add: divide_right_mono)
    then have dw: "d \<le> wt" unfolding d_def wt_def rt by (intro min.mono) simp_all
    have dpos: "0 < d" unfolding d_def using r c by simp
    have wpos: "0 \<le> wt" using dw dpos by linarith
    have wle: "wt \<le> 1/10" unfolding wt_def by (rule min.cobounded2)
    have rz: "rate tb1 \<noteq> 0" using rt r by simp
    have "consume_loop n True (Some t) start tb w
            = (case time_sleep wt w of
                 Inl err \<Rightarrow> Some (Raises err, tb1, w)
               | Inr w1 \<Rightarrow> consume_loop n True (Some t) start tb1 w1)"
      apply (subst consume_loop.simps)
      unfolding Let_def tb1_def[symmetric] wt_def[symmetric]
      using lt False rz by simp
    then have step: "consume_loop n True (Some t) start tb w
                  = consume_loop n True (Some t) start tb1 (w\<lparr>now := now w + wt\<rparr>)"
      by (simp add: time_sleep_nonneg[OF wpos])
    have "real (Suc k) * d = real k * d + d" by (simp add: algebra_simps)
    with Suc.prems(3)[folded d_def] dw
    have m: "start + t - now (w\<lparr>now := now w + wt\<rparr>) \<le> real k * d" by simp
    have b: "now (w\<lparr>now := now w + wt\<rparr>) - start < max t 0 + 1/10"
      using False wle by simp
    from Suc.IH[OF rt cap m[unfolded d_def] b] show ?thesis unfolding step .
  qed
qed

text \<open>
  Claim C7, as the code has it. For a request of \<open>n > capacity\<close> tokens:
  \<^verbatim>\<open>consume(n, block=False)\<close> returns False; and on a bucket with \<open>rate > 0\<close>,
  \<^verbatim>\<open>consume(n, block=True, timeout=t)\<close> returns False with an elapsed wait of at least
  \<open>t\<close> and less than \<open>max t 0 + 0.1\<close> (it returns at the first check after the wait
  has reached \<open>t\<close>), and \<^verbatim>\<open>consume(n, block=True, timeout=None)\<close> never returns.
\<close>

theorem oversized_request:
  fixes w :: "'z world_scheme"
  assumes "capacity tb < n"
  shows "consume n False timeout tb w = Some (Returns False, refill tb w, w)
       \<and> (0 < rate tb \<longrightarrow>
            (\<exists>tb' (w' :: 'z world_scheme).
                consume n True (Some t) tb w = Some (Returns False, tb', w')
              \<and> t \<le> now w' - now w \<and> now w' - now w < max t 0 + 1/10)
          \<and> consume n True None tb w = None)"
proof (intro conjI impI)
  show "consume n False timeout tb w = Some (Returns False, refill tb w, w)"
    by (rule consume_nonblocking_oversized[OF assms])
next
  assume r: "0 < rate tb"
  let ?d = "min ((n - capacity tb) / rate tb) (1/10)"
  have dpos: "0 < ?d" using r assms by simp
  obtain k :: nat where k: "t / ?d \<le> real k" using real_arch_simple by blast
  have "t \<le> real k * ?d" using k dpos by (simp add: pos_divide_le_eq)
  then have m: "now w + t - now w \<le> real k * ?d" by simp
  have b: "now w - now w < max t 0 + 1/10" by simp
  from consume_loop_timeout[OF r assms refl refl m b]
  show "\<exists>tb' (w' :: 'z world_scheme).
                consume n True (Some t) tb w = Some (Returns False, tb', w')
              \<and> t \<le> now w' - now w \<and> now w' - now w < max t 0 + 1/10"
    by (simp add: consume_def)
next
  assume r: "0 < rate tb"
  show "consume n True None tb w = None"
  proof (cases "consume n True None tb w")
    case None
    then show ?thesis .
  next
    case (Some y)
    then have "consume_loop n True None (now w) tb w = Some y" by (simp add: consume_def)
    from consume_loop_never_returns[OF this] assms r show ?thesis by simp
  qed
qed

text \<open>
  Claim C7 fails as stated for a bucket whose rate is zero: the blocking call with no
  timeout ends, with the ZeroDivisionError of \<^verbatim>\<open>(tokens - self.tokens) / self.rate\<close>.
\<close>

theorem zero_rate_blocking_raises:
  "capacity (TokenBucket_init 0 (Some 5) None \<lparr>now = 0\<rparr>) < 10
   \<and> tokens (TokenBucket_init 0 (Some 5) None \<lparr>now = 0\<rparr>)
        \<le> capacity (TokenBucket_init 0 (Some 5) None \<lparr>now = 0\<rparr>)
   \<and> consume 10 True None (TokenBucket_init 0 (Some 5) None \<lparr>now = 0\<rparr>) \<lparr>now = 0\<rparr>
       = Some (Raises (Raised ZeroDivisionError ''float division by zero''),
               \<lparr>rate = 0, capacity = 5, tokens = 5, last_update = 0\<rparr>, \<lparr>now = 0\<rparr>)"
  by (subst consume_def, subst consume_loop.simps)
     (simp add: TokenBucket_init_def refill_def)

theorem oversized_request_witness:
  "consume 10 False None (TokenBucket_init 1 (Some 5) None \<lparr>now = 0\<rparr>) \<lparr>now = 0\<rparr>
     = Some (Returns False, \<lparr>rate = 1, capacity = 5, tokens = 5, last_update = 0\<rparr>, \<lparr>now = 0\<rparr>)
   \<and> (\<exists>tb' w'. consume 10 True (Some (1/4)) (TokenBucket_init 1 (Some 5) None \<lparr>now = 0\<rparr>) \<lparr>now = 0\<rparr>
                  = Some (Returns False, tb', w')
                \<and> 1/4 \<le> now w' \<and> now w' < 1/4 + 1/10)
   \<and> consume 10 True None (TokenBucket_init 1 (Some 5) None \<lparr>now = 0\<rparr>) \<lparr>now = (0::real)\<rparr> = None"
  using oversized_request[where tb = "TokenBucket_init 1 (Some 5) None \<lparr>now = 0\<rparr>" and n = 10
      and w = "\<lparr>now = 0\<rparr>" and timeout = None and t = "1/4"]
  by (simp add: TokenBucket_init_def refill_def)

text \<open>
  A negative rate ends the blocking call as well: the wait is negative and
  \<^verbatim>\<open>time.sleep\<close> raises ValueError.
\<close>

lemma negative_rate_blocking_raises:
  "consume 10 True None (TokenBucket_init (- 1) (Some 5) None \<lparr>now = 0\<rparr>) \<lparr>now = 0\<rparr>
     = Some (Raises (Raised ValueError ''sleep length must be non-negative''),
             \<lparr>rate = - 1, capacity = 5, tokens = 5, last_update = 0\<rparr>, \<lparr>now = 0\<rparr>)"
  by (subst consume_def, subst consume_loop.simps)
     (simp add: TokenBucket_init_def refill_def time_sleep_def)

section \<open>Properties of the Redis-backed circuit breaker\<close>

lemma CircuitState_of_state_value: "CircuitState_of (RStr (state_value s)) = Inr s"
  by (cases s) (simp_all add: CircuitState_of_def)

lemma mirrors_get_state:
  "mirrors b rb c \<Longrightarrow> \<not> decode_responses c \<Longrightarrow> get_state rb c = Inr (state b)"
  by (simp add: mirrors_def get_state_def redis_get_def CircuitState_of_state_value)

lemma mirrors_get_last_failure_time:
  "mirrors b rb c \<Longrightarrow> get_last_failure_time rb c = Inr (last_failure_time b)"
  by (cases "last_failure_time b")
     (simp_all add: mirrors_def get_last_failure_time_def redis_get_def truthy_def)

lemma mirrors_incr_failures:
  "mirrors b rb c \<Longrightarrow>
     \<exists>c'. incr_failures rb c = Inr (failure_count b + 1, c')
        \<and> mirrors (b\<lparr>failure_count := failure_count b + 1\<rparr>) rb c'
        \<and> decode_responses c' = decode_responses c"
  by (auto simp: mirrors_def incr_failures_def redis_incr_def)

lemma mirrors_incr_successes:
  "mirrors b rb c \<Longrightarrow>
     \<exists>c'. incr_successes rb c = Inr (success_count b + 1, c')
        \<and> mirrors (b\<lparr>success_count := success_count b + 1\<rparr>) rb c'
        \<and> decode_responses c' = decode_responses c"
  by (auto simp: mirrors_def incr_successes_def redis_incr_def)

lemma mirrors_set_state:
  "mirrors b rb c \<Longrightarrow> mirrors (b\<lparr>state := s\<rparr>) rb (set_state rb s c)"
  by (auto simp: mirrors_def set_state_def redis_set_def)

lemma mirrors_reset_failures:
  "mirrors b rb c \<Longrightarrow> mirrors (b\<lparr>failure_count := 0\<rparr>) rb (reset_failures rb c)"
  by (auto simp: mirrors_def reset_failures_def redis_set_def)

lemma mirrors_reset_successes:
  "mirrors b rb c \<Longrightarrow> mirrors (b\<lparr>success_count := 0\<rparr>) rb (reset_successes rb c)"
  by (auto simp: mirrors_def reset_successes_def redis_set_def)

lemma mirrors_set_last_failure_time:
  "mirrors b rb c \<Longrightarrow>
     mirrors (b\<lparr>last_failure_time := Some t\<rparr>) rb (set_last_failure_time rb t c)"
  by (auto simp: mirrors_def set_last_failure_time_def redis_set_def)

lemma writes_keep_decode:
  "decode_responses (set_state rb s c) = decode_responses c"
  "decode_responses (reset_failures rb c) = decode_responses c"
  "decode_responses (reset_successes rb c) = decode_responses c"
  "decode_responses (set_last_failure_time rb t c) = decode_responses c"
  by (simp_all add: set_state_def reset_failures_def reset_successes_def
      set_last_failure_time_def redis_set_def)


lemma sim_not_open:
  assumes sim: "simulates b rb c" and st: "state b \<noteq> OPEN"
    and nz: "\<forall>e w1. func w = (Raises e, w1) \<longrightarrow> now w1 \<noteq> 0"
    and c: "call func b w = (r, b', w')"
  shows "\<exists>c'. RedisCircuitBreaker_call func rb c w = (r, c', w') \<and> simulates b' rb c'"
proof -
  from sim have m: "mirrors b rb c" and nd: "\<not> decode_responses c"
    and l0: "last_failure_time b \<noteq> Some 0" by (simp_all add: simulates_def)
  have cfg: "failure_threshold_r rb = failure_threshold b"
    "success_threshold_r rb = success_threshold b"
    "expected_exception_r rb = expected_exception b"
    using m by (simp_all add: mirrors_def)
  note gs = mirrors_get_state[OF m nd]
  obtain out w1 where f: "func w = (out, w1)" by (cases "func w")
  show ?thesis
  proof (cases out)
    case (Returns v)
    show ?thesis
    proof (cases "state b = HALF_OPEN")
      case True
      from mirrors_incr_successes[OF m] obtain c2 where
        i: "incr_successes rb c = Inr (success_count b + 1, c2)"
        and m2: "mirrors (b\<lparr>success_count := success_count b + 1\<rparr>) rb c2"
        and d2: "decode_responses c2 = decode_responses c" by blast
      show ?thesis
      proof (cases "success_threshold b \<le> success_count b + 1")
        case closes: True
        let ?c' = "reset_failures rb (set_state rb CLOSED c2)"
        have r: "RedisCircuitBreaker_call func rb c w = (Returns v, ?c', w1)"
          using st gs f Returns True i closes cfg by (simp add: RedisCircuitBreaker_call_def)
        have b': "r = Returns v" "w' = w1"
          "b' = b\<lparr>success_count := success_count b + 1, failure_count := 0, state := CLOSED\<rparr>"
          using c st f Returns True closes by (auto simp: call_def Let_def)
        from mirrors_reset_failures[OF mirrors_set_state[OF m2, of CLOSED]]
        have "mirrors b' rb ?c'" by (simp add: b' mirrors_def)
        then have "simulates b' rb ?c'"
          using nd d2 l0 by (simp add: simulates_def writes_keep_decode b')
        with r b' show ?thesis by simp
      next
        case stays: False
        have r: "RedisCircuitBreaker_call func rb c w = (Returns v, c2, w1)"
          using st gs f Returns True i stays cfg by (simp add: RedisCircuitBreaker_call_def)
        have b': "r = Returns v" "w' = w1"
          "b' = b\<lparr>success_count := success_count b + 1\<rparr>"
          using c st f Returns True stays by (auto simp: call_def Let_def)
        have "simulates b' rb c2"
          using m2 nd d2 l0 True by (simp add: simulates_def b')
        with r b' show ?thesis by simp
      qed
    next
      case False
      let ?c' = "reset_failures rb c"
      have r: "RedisCircuitBreaker_call func rb c w = (Returns v, ?c', w1)"
        using st gs f Returns False by (simp add: RedisCircuitBreaker_call_def)
      have b': "r = Returns v" "w' = w1" "b' = b\<lparr>failure_count := 0\<rparr>"
        using c st f Returns False by (auto simp: call_def Let_def)
      have "simulates b' rb ?c'"
        using mirrors_reset_failures[OF m] nd l0 st
        by (simp add: simulates_def writes_keep_decode b')
      with r b' show ?thesis by simp
    qed
  next
    case (Raises e)
    show ?thesis
    proof (cases "isinstance e (expected_exception b)")
      case True
      from mirrors_incr_failures[OF m] obtain c3 where
        i: "incr_failures rb c = Inr (failure_count b + 1, c3)"
        and m3: "mirrors (b\<lparr>failure_count := failure_count b + 1\<rparr>) rb c3"
        and d3: "decode_responses c3 = decode_responses c" by blast
      let ?c4 = "reset_successes rb (set_last_failure_time rb (now w1) c3)"
      let ?b2 = "b\<lparr>failure_count := failure_count b + 1, last_failure_time := Some (now w1),
                     success_count := 0\<rparr>"
      from mirrors_reset_successes[OF mirrors_set_last_failure_time[OF m3, of "now w1"]]
      have m4: "mirrors ?b2 rb ?c4" by simp
      have t0: "now w1 \<noteq> 0" using nz f Raises by simp
      show ?thesis
      proof (cases "failure_threshold b \<le> failure_count b + 1")
        case trips: True
        have r: "RedisCircuitBreaker_call func rb c w = (Raises e, set_state rb OPEN ?c4, w1)"
          using st gs f Raises True i trips cfg
          by (simp add: RedisCircuitBreaker_call_def Let_def)
        have b': "r = Raises e" "w' = w1" "b' = ?b2\<lparr>state := OPEN\<rparr>"
          using c st f Raises True trips by (auto simp: call_def Let_def)
        have "simulates b' rb (set_state rb OPEN ?c4)"
          using mirrors_set_state[OF m4, of OPEN] nd d3 t0
          by (simp add: simulates_def writes_keep_decode b')
        with r b' show ?thesis by simp
      next
        case False
        have r: "RedisCircuitBreaker_call func rb c w = (Raises e, ?c4, w1)"
          using st gs f Raises True i False cfg
          by (simp add: RedisCircuitBreaker_call_def Let_def)
        have b': "r = Raises e" "w' = w1" "b' = ?b2"
          using c st f Raises True False by (auto simp: call_def Let_def)
        have "simulates b' rb ?c4"
          using m4 nd d3 t0 st by (simp add: simulates_def writes_keep_decode b')
        with r b' show ?thesis by simp
      qed
    next
      case False
      have r: "RedisCircuitBreaker_call func rb c w = (Raises e, c, w1)"
        using st gs f Raises False cfg by (simp add: RedisCircuitBreaker_call_def)
      have b': "r = Raises e" "w' = w1" "b' = b"
        using c st f Raises False by (auto simp: call_def Let_def)
      with r sim show ?thesis by simp
    qed
  qed
qed

lemma call_open_eligible:
  "state b = OPEN \<Longrightarrow> last_failure_time b = Some t \<Longrightarrow> recovery_timeout b \<le> now w - t \<Longrightarrow>
     call func b w = call func (b\<lparr>state := HALF_OPEN, success_count := 0\<rparr>) w"
  by (simp add: call_def)

lemma sim_step:
  assumes sim: "simulates b rb c"
    and nz: "\<forall>e w1. func w = (Raises e, w1) \<longrightarrow> now w1 \<noteq> 0"
    and c: "call func b w = (r, b', w')"
  shows "\<exists>c'. RedisCircuitBreaker_call func rb c w = (r, c', w') \<and> simulates b' rb c'"
proof (cases "state b = OPEN")
  case False
  from sim_not_open[OF sim False nz c] show ?thesis .
next
  case True
  from sim have m: "mirrors b rb c" and nd: "\<not> decode_responses c"
    and l0: "last_failure_time b \<noteq> Some 0" by (simp_all add: simulates_def)
  from sim True obtain t where t: "last_failure_time b = Some t"
    by (auto simp: simulates_def)
  with l0 have t0: "t \<noteq> 0" by simp
  have rt: "recovery_timeout_r rb = recovery_timeout b" using m by (simp add: mirrors_def)
  note gs = mirrors_get_state[OF m nd]
  note gl = mirrors_get_last_failure_time[OF m]
  show ?thesis
  proof (cases "recovery_timeout b \<le> now w - t")
    case eligible: True
    let ?b1 = "b\<lparr>state := HALF_OPEN, success_count := 0\<rparr>"
    let ?c1 = "reset_successes rb (set_state rb HALF_OPEN c)"
    from mirrors_reset_successes[OF mirrors_set_state[OF m, of HALF_OPEN]]
    have m1: "mirrors ?b1 rb ?c1" by simp
    have nd1: "\<not> decode_responses ?c1" using nd by (simp add: writes_keep_decode)
    have sim1: "simulates ?b1 rb ?c1"
      using m1 nd1 l0 by (simp add: simulates_def)
    have gs1: "get_state rb ?c1 = Inr HALF_OPEN"
      using mirrors_get_state[OF m1 nd1] by simp
    have "call func b w = call func ?b1 w"
      by (rule call_open_eligible[OF True t eligible])
    with c have c1: "call func ?b1 w = (r, b', w')" by simp
    have "RedisCircuitBreaker_call func rb c w = RedisCircuitBreaker_call func rb ?c1 w"
      using True gs gl t t0 eligible rt gs1
      by (simp add: RedisCircuitBreaker_call_def)
    with sim_not_open[OF sim1 _ nz c1] show ?thesis by simp
  next
    case False
    have "RedisCircuitBreaker_call func rb c w
            = (Raises (CircuitOpen (recovery_timeout b - (now w - t))), c, w)"
      using True gs gl t t0 False rt by (simp add: RedisCircuitBreaker_call_def)
    moreover have "call func b w = (Raises (CircuitOpen (recovery_timeout b - (now w - t))), b, w)"
      using True t False by (simp add: call_def)
    ultimately show ?thesis using c sim by simp
  qed
qed

lemma calls_simulation:
  "simulates b rb c \<Longrightarrow> nonzero_failure_times steps \<Longrightarrow> calls steps b w = (rs, b', w')
     \<Longrightarrow> \<exists>c'. redis_calls steps rb c w = (rs, c', w') \<and> simulates b' rb c'"
proof (induction steps arbitrary: b c w rs)
  case Nil
  then show ?case by simp
next
  case (Cons step rest)
  obtain env func where step: "step = (env, func)" by (cases step)
  obtain r b1 w1 where c1: "call func b (env w) = (r, b1, w1)" by (cases "call func b (env w)")
  obtain rs1 where run: "calls rest b1 w1 = (rs1, b', w')" and rs: "rs = r # rs1"
    using Cons.prems(3) step c1 by (auto split: prod.splits)
  from Cons.prems(2) step have nz: "\<forall>e w1. func (env w) = (Raises e, w1) \<longrightarrow> now w1 \<noteq> 0"
    and nzr: "nonzero_failure_times rest" by (auto simp: nonzero_failure_times_def)
  from sim_step[OF Cons.prems(1) nz c1] obtain c1' where
    r1: "RedisCircuitBreaker_call func rb c (env w) = (r, c1', w1)" and s1: "simulates b1 rb c1'"
    by blast
  from Cons.IH[OF s1 nzr run] obtain c' where
    "redis_calls rest rb c1' w1 = (rs1, c', w')" "simulates b' rb c'" by blast
  with r1 step rs show ?case by simp
qed

lemma init_simulates:
  "RedisCircuitBreaker_init nm (empty_client False) ft rt st ee prefix = (rb, c)
     \<Longrightarrow> simulates (CircuitBreaker_init nm ft rt st ee) rb c"
  by (auto simp: RedisCircuitBreaker_init_def empty_client_def redis_exists_def redis_set_def
      Let_def simulates_def mirrors_def CircuitBreaker_init_def)

text \<open>
  Where the two breakers agree: with a client that returns bytes and an initially empty
  store, every run in which no failure is recorded at clock reading 0 gives the same
  outcomes and the same final world from both, call by call.
\<close>

lemma redis_equivalence:
  assumes "RedisCircuitBreaker_init nm (empty_client False) ft rt st ee prefix = (rb, c)"
    and "nonzero_failure_times steps"
  shows "fst (redis_calls steps rb c w) = fst (calls steps (CircuitBreaker_init nm ft rt st ee) w)
       \<and> snd (snd (redis_calls steps rb c w))
           = snd (snd (calls steps (CircuitBreaker_init nm ft rt st ee) w))"
proof -
  obtain rs b' w' where run: "calls steps (CircuitBreaker_init nm ft rt st ee) w = (rs, b', w')"
    by (cases "calls steps (CircuitBreaker_init nm ft rt st ee) w")
  from calls_simulation[OF init_simulates[OF assms(1)] assms(2) run] run
  show ?thesis by auto
qed

text \<open>
  Claim C9 does not hold of the code. With a client created with
  \<^verbatim>\<open>decode_responses=True\<close>, as the module's own example creates it, \<^verbatim>\<open>_get_state\<close>
  calls \<^verbatim>\<open>.decode()\<close> on a \<^verbatim>\<open>str\<close>: the first call on an empty store raises
  AttributeError before the function is invoked, where the in-memory breaker returns
  the function's result.
\<close>

theorem redis_decoded_client_diverges:
  "fst (RedisCircuitBreaker_call (always_return (7::nat))
          (fst (RedisCircuitBreaker_init ''api'' (empty_client True) 1 60 2 Exception ''circuit_breaker''))
          (snd (RedisCircuitBreaker_init ''api'' (empty_client True) 1 60 2 Exception ''circuit_breaker''))
          \<lparr>now = 100\<rparr>)
     = Raises (Raised AttributeError ''str object has no attribute decode'')
   \<and> fst (call (always_return (7::nat)) (CircuitBreaker_init ''api'' 1 60 2 Exception) \<lparr>now = 100\<rparr>)
     = Returns 7"
  by (simp add: RedisCircuitBreaker_init_def empty_client_def redis_exists_def redis_set_def
      Let_def RedisCircuitBreaker_call_def get_state_def redis_get_def call_def
      CircuitBreaker_init_def always_return_def)

text \<open>
  A second divergence, with the default client: \<^verbatim>\<open>if last_failure and ...\<close> takes the
  timestamp \<open>0.0\<close> for a missing one. After a failure at clock reading 0 and threshold
  1, a call 100 seconds later (recovery timeout 60) is a trial call in memory and is
  rejected by the Redis breaker.
\<close>

theorem redis_epoch_failure_diverges:
  "fst (redis_calls epoch_steps
          (fst (RedisCircuitBreaker_init ''api'' (empty_client False) 1 60 2 Exception ''circuit_breaker''))
          (snd (RedisCircuitBreaker_init ''api'' (empty_client False) 1 60 2 Exception ''circuit_breaker''))
          \<lparr>now = 0\<rparr>)
     = [Raises (Raised ConnectionError ''down''), Raises (CircuitOpen 0)]
   \<and> fst (calls epoch_steps (CircuitBreaker_init ''api'' 1 60 2 Exception) \<lparr>now = 0\<rparr>)
     = [Raises (Raised ConnectionError ''down''), Returns 7]"
  by (simp add: RedisCircuitBreaker_init_def empty_client_def redis_exists_def redis_set_def
      Let_def RedisCircuitBreaker_call_def get_state_def redis_get_def call_def
      CircuitBreaker_init_def always_return_def always_raise_def epoch_steps_def at_time_def
      isinstance_def CircuitState_of_def incr_failures_def redis_incr_def reset_successes_def
      set_last_failure_time_def set_state_def get_last_failure_time_def truthy_def)

end
